theory Spec2Isabelle
  imports Complex_Main "HOL-Library.Multiset" "HOL-Library.Product_Lexorder" "HOL-Library.Sublist"
begin

section \<open>Text of the PDF parser service\<close>

text \<open>
  Python's \<open>str\<close> is modelled by \<open>string\<close>: one \<open>char\<close> is one code point, so the
  model covers text whose code points lie below 256. The two character classes that
  \<open>main.py\<close> uses through \<open>re\<close> and \<open>str.strip\<close> are those of Python 3 on that range:
  \<open>\s\<close> and \<open>str.strip()\<close> use \<open>str.isspace\<close>, \<open>\w\<close> is \<open>str.isalnum\<close> or the underscore.
\<close>

definition NUL :: char where
  "NUL = CHR 0x00"

definition NL :: char where
  "NL = CHR 0x0A"

definition is_space :: "char \<Rightarrow> bool" where
  "is_space c =
     (let n = (of_char c :: nat)
      in (9 \<le> n \<and> n \<le> 13) \<or> (28 \<le> n \<and> n \<le> 32) \<or> n = 133 \<or> n = 160)"

definition is_word :: "char \<Rightarrow> bool" where
  "is_word c =
     (let n = (of_char c :: nat)
      in (48 \<le> n \<and> n \<le> 57) \<or> (65 \<le> n \<and> n \<le> 90) \<or> n = 95 \<or> (97 \<le> n \<and> n \<le> 122)
         \<or> n = 170 \<or> n = 178 \<or> n = 179 \<or> n = 181 \<or> n = 185 \<or> n = 186
         \<or> (188 \<le> n \<and> n \<le> 190) \<or> (192 \<le> n \<and> n \<le> 214)
         \<or> (216 \<le> n \<and> n \<le> 246) \<or> (248 \<le> n \<and> n \<le> 255))"

subsection \<open>\<open>_post_process_text\<close> (main.py, lines 57 to 66)\<close>

text \<open>\<open>s.replace("\x00", "")\<close>\<close>

definition remove_nulls :: "string \<Rightarrow> string" where
  "remove_nulls s = filter (\<lambda>c. c \<noteq> NUL) s"

text \<open>
  One attempt of the pattern \<open>https:/\s*/\<close> at the head of the text: the remainder after
  the match, if there is one. The slash is no whitespace, so the greedy \<open>\s*\<close> can only
  take the whole run of whitespace.
\<close>

definition match_url :: "string \<Rightarrow> string option" where
  "match_url s =
     (if take 7 s = ''https:/''
      then (case dropWhile is_space (drop 7 s) of
              [] \<Rightarrow> None
            | c # r \<Rightarrow> if c = CHR ''/'' then Some r else None)
      else None)"

text \<open>
  \<open>re.sub(r"https:/\s*/", "https://", s)\<close>: the matches are found from left to right and do
  not overlap; the search goes on behind each match.
\<close>

function url_fix :: "string \<Rightarrow> string" where
  "url_fix [] = []"
| "url_fix (c # cs) =
     (case match_url (c # cs) of
        Some r \<Rightarrow> ''https://'' @ url_fix r
      | None \<Rightarrow> c # url_fix cs)"
  by pat_completeness auto
termination
proof (relation "measure length")
  show "wf (measure length)" by simp
next
  fix c :: char and cs r :: string
  assume "match_url (c # cs) = Some r"
  then obtain d where d: "dropWhile is_space (drop 7 (c # cs)) = d # r"
    by (auto simp: match_url_def split: if_splits list.splits)
  have "length (dropWhile is_space (drop 7 (c # cs))) \<le> length (drop 7 (c # cs))"
    by (rule length_dropWhile_le)
  with d have "length r < length (c # cs)" by simp
  then show "(r, c # cs) \<in> measure length" by simp
next
  fix c :: char and cs :: string
  show "(cs, c # cs) \<in> measure length" by simp
qed

text \<open>
  \<open>re.sub(r"(\w)-\n(\w)", r"\1\2", s)\<close>: a match takes four characters, both word
  characters included, and the search goes on behind the second one.
\<close>

fun hyphen_join :: "string \<Rightarrow> string" where
  "hyphen_join (a # h # n # b # rest) =
     (if is_word a \<and> h = CHR ''-'' \<and> n = NL \<and> is_word b
      then a # b # hyphen_join rest
      else a # hyphen_join (h # n # b # rest))"
| "hyphen_join (c # cs) = c # hyphen_join cs"
| "hyphen_join [] = []"

text \<open>\<open>s.strip()\<close>\<close>

definition strip :: "string \<Rightarrow> string" where
  "strip s = rev (dropWhile is_space (rev (dropWhile is_space s)))"

definition post_process_text :: "string \<Rightarrow> string" where
  "post_process_text s =
     (if s = [] then s
      else strip (hyphen_join (url_fix (remove_nulls s))))"

section \<open>Data delivered by the PDF backend\<close>

text \<open>
  The model is typed: a span, a line and a block are records with the keys that
  \<open>main.py\<close> reads, so the \<open>isinstance\<close> guards of the source always pass and the
  sorts never raise. A coordinate is a finite Python float, that is an IEEE 754 binary64
  number, and is modelled by its real value. Comparisons and \<open>abs\<close> are exact on such
  values; a subtraction rounds its exact result to the nearest binary64 number, ties to
  the even one (\<open>float_sub\<close> below). Infinities, NaN and overflow are outside the model.
\<close>

type_synonym bbox = "real \<times> real \<times> real \<times> real"

record span =
  span_text :: string
  origin :: "real \<times> real"

record rd_line =
  line_bbox :: bbox
  line_spans :: "span list"

text \<open>\<open>block_type\<close> is \<open>b.get("type", 0)\<close>; \<open>None\<close> is Python's \<open>None\<close>.\<close>

record rd_block =
  block_bbox :: bbox
  block_type :: "int option"
  block_lines :: "rd_line list"

text \<open>
  An entry of \<open>page.get_text("blocks")\<close>: the tuple
  \<open>(x0, y0, x1, y1, text, block_no, block_type)\<close>.
\<close>

record blk =
  blk_x0 :: real
  blk_y0 :: real
  blk_x1 :: real
  blk_y1 :: real
  blk_text :: string
  blk_no :: int
  blk_type :: "int option"

text \<open>
  The exceptions that reach the handlers of \<open>main.py\<close>. In PyMuPDF
  \<open>fitz.FileDataError\<close> derives from \<open>RuntimeError\<close>; \<open>HTTPException\<close> carries its status code.
\<close>

datatype exn = RuntimeError | FileDataError | HTTPException nat | OtherException

fun is_RuntimeError :: "exn \<Rightarrow> bool" where
  "is_RuntimeError RuntimeError = True"
| "is_RuntimeError FileDataError = True"
| "is_RuntimeError (HTTPException code) = False"
| "is_RuntimeError OtherException = False"

text \<open>
  A page answers three requests, \<open>get_text("rawdict")\<close>, \<open>get_text("blocks")\<close> and
  \<open>get_text("text")\<close>; each one returns its data or raises.
\<close>

record page =
  get_text_rawdict :: "exn + rd_block list"
  get_text_blocks :: "exn + blk list"
  get_text_text :: "exn + string"

text \<open>
  An open document: \<open>needs_pass\<close> is the attribute as read at line 221, after the attempt
  with the empty password; \<open>load_page\<close> lists the outcome of \<open>load_page(i)\<close> for every
  \<open>i\<close> in \<open>range(page_count)\<close>.
\<close>

record document =
  needs_pass :: bool
  load_page :: "(exn + page) list"

section \<open>Page text extraction\<close>

text \<open>\<open>round(x, 1)\<close> on a real number: to the nearest tenth, a tie to the even one.\<close>

definition py_round1 :: "real \<Rightarrow> real" where
  "py_round1 x =
     (let y = x * 10; f = \<lfloor>y\<rfloor>; d = y - of_int f
      in (if d < 1 / 2 then of_int f
          else if 1 / 2 < d then of_int (f + 1)
          else if even f then of_int f else of_int (f + 1)) / 10)"

text \<open>
  The subtraction of two floats. \<open>pow2 e\<close> is the power of two with exponent \<open>e\<close>.
  \<open>binade n 0 a\<close> is the exponent of a positive \<open>a\<close>, found from 0 in at most \<open>n\<close> steps
  and kept within the range of binary64, from -1022 (below it the numbers are subnormal)
  to 1023. A binary64 number has 53 significant bits, so neighbours in the binade of
  exponent \<open>e\<close> are \<open>pow2 (e - 52)\<close> apart, and \<open>double_round\<close> takes the nearest multiple of
  that unit, a tie to the even multiple.
\<close>

definition pow2 :: "int \<Rightarrow> real" where
  "pow2 e = (if 0 \<le> e then 2 ^ nat e else 1 / 2 ^ nat (- e))"

fun binade :: "nat \<Rightarrow> int \<Rightarrow> real \<Rightarrow> int" where
  "binade 0 e a = e"
| "binade (Suc n) e a =
     (if a < pow2 e \<and> - 1022 < e then binade n (e - 1) a
      else if pow2 (e + 1) \<le> a \<and> e < 1023 then binade n (e + 1) a
      else e)"

definition round_half_even :: "real \<Rightarrow> int" where
  "round_half_even y =
     (let f = \<lfloor>y\<rfloor>; d = y - of_int f
      in if d < 1 / 2 then f
         else if 1 / 2 < d then f + 1
         else if even f then f else f + 1)"

definition double_round :: "real \<Rightarrow> real" where
  "double_round x =
     (if x = 0 then 0
      else (let u = pow2 (binade 1023 0 \<bar>x\<bar> - 52)
            in of_int (round_half_even (x / u)) * u))"

definition float_sub :: "real \<Rightarrow> real \<Rightarrow> real" where
  "float_sub a b = double_round (a - b)"

text \<open>\<open>sep.join(xs)\<close>\<close>

fun join :: "string \<Rightarrow> string list \<Rightarrow> string" where
  "join sep [] = []"
| "join sep [x] = x"
| "join sep (x # y # ys) = x @ sep @ join sep (y # ys)"

subsection \<open>\<open>_extract_page_text_blocks\<close> (main.py, lines 26 to 55)\<close>

definition block_texts :: "blk list \<Rightarrow> string list" where
  "block_texts blocks =
     map blk_text
       (filter (\<lambda>b. blk_text b \<noteq> [] \<and> (blk_type b = Some 0 \<or> blk_type b = None))
          (sort_key (\<lambda>b. (py_round1 (blk_y0 b), py_round1 (blk_x0 b))) blocks))"

definition extract_page_text_blocks :: "page \<Rightarrow> exn + string" where
  "extract_page_text_blocks pg =
     (case get_text_blocks pg of
        Inl e \<Rightarrow> get_text_text pg
      | Inr blocks \<Rightarrow>
          (let joined = join [NL] (block_texts blocks)
           in if joined \<noteq> [] then Inr joined else get_text_text pg))"

subsection \<open>\<open>_extract_page_text_rawdict\<close> (main.py, lines 68 to 153)\<close>

text \<open>Lines 100 to 111: the spans of a line sorted by \<open>origin[0]\<close>, the empty texts left out.\<close>

definition line_parts :: "span list \<Rightarrow> string list" where
  "line_parts sps =
     filter (\<lambda>txt. txt \<noteq> []) (map span_text (sort_key (\<lambda>sp. fst (origin sp)) sps))"

text \<open>An entry of \<open>collected_lines\<close>: \<open>(y0, y1, x0, text)\<close>.\<close>

type_synonym text_line = "real \<times> real \<times> real \<times> string"

text \<open>Lines 97 to 117 for one line: no entry when \<open>parts\<close> is empty.\<close>

definition collect_line :: "rd_line \<Rightarrow> text_line list" where
  "collect_line line =
     (let parts = line_parts (line_spans line)
      in if parts = [] then []
         else (case line_bbox line of (x0, y0, x1, y1) \<Rightarrow> [(y0, y1, x0, concat parts)]))"

text \<open>Lines 81 to 117: blocks in top-left order, text blocks only.\<close>

definition collect_lines :: "rd_block list \<Rightarrow> text_line list" where
  "collect_lines blocks =
     concat (map (\<lambda>b. if block_type b = Some 0 \<or> block_type b = None
                        then concat (map collect_line (block_lines b)) else [])
               (sort_key (\<lambda>b. case block_bbox b of (x0, y0, x1, y1) \<Rightarrow> (py_round1 y0, py_round1 x0))
                  blocks))"

text \<open>Lines 126 to 149: the variables of the loop that groups lines into paragraphs.\<close>

record para_state =
  paragraphs :: "string list"
  current :: "string list"
  prev_y1 :: "real option"
  prev_x0 :: "real option"

definition para_step :: "para_state \<Rightarrow> text_line \<Rightarrow> para_state" where
  "para_step st line =
     (case line of (y0, y1, x0, txt) \<Rightarrow>
        (case prev_y1 st of
           None \<Rightarrow> st\<lparr>current := current st @ [txt], prev_y1 := Some y1, prev_x0 := Some x0\<rparr>
         | Some py1 \<Rightarrow>
             (let vgap = float_sub y0 py1;
                  xdelta = (case prev_x0 st of None \<Rightarrow> 0 | Some px0 \<Rightarrow> \<bar>float_sub x0 px0\<bar>);
                  new_para = (7.0 < vgap \<or> (18.0 < xdelta \<and> 2.0 < vgap))
              in if new_para
                 then st\<lparr>paragraphs := paragraphs st @ [join [NL] (current st)],
                         current := [txt], prev_y1 := Some y1, prev_x0 := Some x0\<rparr>
                 else st\<lparr>current := current st @ [txt],
                         prev_y1 := Some y1, prev_x0 := Some x0\<rparr>)))"

definition group_paragraphs :: "text_line list \<Rightarrow> string list" where
  "group_paragraphs ls =
     (let st = foldl para_step
                 \<lparr>paragraphs = [], current = [], prev_y1 = None, prev_x0 = None\<rparr> ls
      in if current st \<noteq> [] then paragraphs st @ [join [NL] (current st)]
         else paragraphs st)"

definition extract_page_text_rawdict :: "page \<Rightarrow> exn + string" where
  "extract_page_text_rawdict pg =
     (case get_text_rawdict pg of
        Inl e \<Rightarrow> extract_page_text_blocks pg
      | Inr blocks \<Rightarrow>
          (let collected_lines = collect_lines blocks
           in if collected_lines = [] then extract_page_text_blocks pg
              else (let sorted_lines =
                          sort_key (\<lambda>(y0, y1, x0, txt). (py_round1 y0, py_round1 x0))
                            collected_lines;
                        page_text = join [NL, NL] (group_paragraphs sorted_lines)
                    in if page_text \<noteq> [] then Inr page_text
                       else extract_page_text_blocks pg)))"

section \<open>The two parse operations\<close>

record upload_file =
  content_type :: "string option"
  filename :: string
  file_content :: string

text \<open>
  The check of lines 199 and 296, negated:
  \<open>file.content_type and file.content_type.startswith("application/pdf")\<close>.
\<close>

definition is_pdf :: "upload_file \<Rightarrow> bool" where
  "is_pdf file =
     (case content_type file of
        None \<Rightarrow> False
      | Some ct \<Rightarrow> ct \<noteq> [] \<and> prefix ''application/pdf'' ct)"

text \<open>\<open>PageText\<close>; its field \<open>text\<close> is \<open>page_text\<close> here.\<close>

record PageText =
  page_number :: int
  page_text :: string

record parse_metadata =
  meta_page_count :: int
  meta_filename :: string
  meta_file_size :: int

text \<open>\<open>PDFParseResponse\<close>; its field \<open>text\<close> is \<open>response_text\<close> here.\<close>

record PDFParseResponse =
  response_text :: string
  pages :: "PageText list"
  metadata :: parse_metadata

text \<open>
  The two variables that \<open>parse_pdf\<close> sets up before its inner \<open>try\<close> (lines 211 and
  212) and that both page loops append to. A loop returns them as they are when it
  ends or when an exception leaves it.
\<close>

record acc =
  pages_data :: "PageText list"
  full_text :: string

text \<open>Lines 225 to 240, from page index \<open>page_num\<close> on.\<close>

fun primary_loop :: "(exn + page) list \<Rightarrow> nat \<Rightarrow> acc \<Rightarrow> exn option \<times> acc" where
  "primary_loop [] page_num a = (None, a)"
| "primary_loop (loaded # rest) page_num a =
     (case loaded of
        Inl e \<Rightarrow> (Some e, a)
      | Inr pg \<Rightarrow>
          (case extract_page_text_rawdict pg of
             Inl e \<Rightarrow> (Some e, a)
           | Inr txt \<Rightarrow>
               (let cleaned_text = post_process_text txt
                in primary_loop rest (Suc page_num)
                     \<lparr>pages_data = pages_data a @
                        [\<lparr>page_number = int page_num + 1, page_text = cleaned_text\<rparr>],
                      full_text = full_text a @ cleaned_text @ [NL]\<rparr>)))"

text \<open>Lines 247 to 252, from page index \<open>page_num\<close> on.\<close>

fun retry_loop :: "(exn + page) list \<Rightarrow> nat \<Rightarrow> acc \<Rightarrow> exn option \<times> acc" where
  "retry_loop [] page_num a = (None, a)"
| "retry_loop (loaded # rest) page_num a =
     (case loaded of
        Inl e \<Rightarrow> (Some e, a)
      | Inr pg \<Rightarrow>
          (case get_text_text pg of
             Inl e \<Rightarrow> (Some e, a)
           | Inr txt \<Rightarrow>
               (let cleaned_text = strip (remove_nulls txt)
                in retry_loop rest (Suc page_num)
                     \<lparr>pages_data = pages_data a @
                        [\<lparr>page_number = int page_num + 1, page_text = cleaned_text\<rparr>],
                      full_text = full_text a @ cleaned_text @ [NL]\<rparr>)))"

text \<open>Lines 254 to 268.\<close>

definition make_response :: "upload_file \<Rightarrow> acc \<Rightarrow> nat \<Rightarrow> PDFParseResponse" where
  "make_response file a page_count =
     \<lparr>response_text = post_process_text (full_text a),
      pages = pages_data a,
      metadata = \<lparr>meta_page_count = int page_count,
                  meta_filename = filename file,
                  meta_file_size = int (length (file_content file))\<rparr>\<rparr>"

text \<open>
  Lines 241 to 252: the handler of \<open>RuntimeError\<close>. It opens the document a second time and
  goes on with the variables as the first attempt left them.
\<close>

definition retry_parse :: "upload_file \<Rightarrow> exn + document \<Rightarrow> acc \<Rightarrow> exn + PDFParseResponse" where
  "retry_parse file reopened a =
     (case reopened of
        Inl e \<Rightarrow> Inl e
      | Inr doc \<Rightarrow>
          (case retry_loop (load_page doc) 0 a of
             (Some e, a') \<Rightarrow> Inl e
           | (None, a') \<Rightarrow> Inr (make_response file a' (length (load_page doc)))))"

text \<open>
  Lines 270 to 281 and 350 to 361: \<open>fitz.FileDataError\<close> becomes status 400, every other
  exception, an \<open>HTTPException\<close> raised inside included, becomes status 500.
\<close>

definition outer_handlers :: "exn + 'a \<Rightarrow> exn + 'a" where
  "outer_handlers r =
     (case r of
        Inr x \<Rightarrow> Inr x
      | Inl e \<Rightarrow> if e = FileDataError then Inl (HTTPException 400)
                 else Inl (HTTPException 500))"

text \<open>
  \<open>parse_pdf\<close> (lines 183 to 281). \<open>opened\<close> is the outcome of the \<open>fitz.open\<close> of line 214,
  \<open>reopened\<close> that of line 245.
\<close>

definition parse_pdf ::
  "upload_file \<Rightarrow> exn + document \<Rightarrow> exn + document \<Rightarrow> exn + PDFParseResponse" where
  "parse_pdf file opened reopened =
     outer_handlers
       (if \<not> is_pdf file then Inl (HTTPException 400)
        else (let a0 = \<lparr>pages_data = [], full_text = []\<rparr>
              in case opened of
                   Inl e \<Rightarrow> if is_RuntimeError e then retry_parse file reopened a0 else Inl e
                 | Inr doc \<Rightarrow>
                     if needs_pass doc then Inl (HTTPException 400)
                     else (case primary_loop (load_page doc) 0 a0 of
                             (None, a) \<Rightarrow> Inr (make_response file a (length (load_page doc)))
                           | (Some e, a) \<Rightarrow>
                               if is_RuntimeError e then retry_parse file reopened a
                               else Inl e)))"

text \<open>The response of \<open>parse_pdf_text_only\<close>: the keys \<open>text\<close>, \<open>page_count\<close>, \<open>filename\<close>.\<close>

record text_only_response =
  only_text :: string
  only_page_count :: int
  only_filename :: string

text \<open>Lines 321 to 328 and 335 to 338: the same loop in both attempts.\<close>

fun text_only_loop :: "(exn + page) list \<Rightarrow> string \<Rightarrow> exn + string" where
  "text_only_loop [] ft = Inr ft"
| "text_only_loop (loaded # rest) ft =
     (case loaded of
        Inl e \<Rightarrow> Inl e
      | Inr pg \<Rightarrow>
          (case extract_page_text_rawdict pg of
             Inl e \<Rightarrow> Inl e
           | Inr txt \<Rightarrow> text_only_loop rest (ft @ txt @ [NL])))"

definition text_only_attempt :: "upload_file \<Rightarrow> document \<Rightarrow> exn + text_only_response" where
  "text_only_attempt file doc =
     (case text_only_loop (load_page doc) [] of
        Inl e \<Rightarrow> Inl e
      | Inr ft \<Rightarrow>
          Inr \<lparr>only_text = post_process_text ft,
               only_page_count = int (length (load_page doc)),
               only_filename = filename file\<rparr>)"

text \<open>Lines 329 to 338: the retry starts again from an empty \<open>full_text\<close>.\<close>

definition retry_text_only :: "upload_file \<Rightarrow> exn + document \<Rightarrow> exn + text_only_response" where
  "retry_text_only file reopened =
     (case reopened of
        Inl e \<Rightarrow> Inl e
      | Inr doc \<Rightarrow> text_only_attempt file doc)"

text \<open>\<open>parse_pdf_text_only\<close> (lines 283 to 361).\<close>

definition parse_pdf_text_only ::
  "upload_file \<Rightarrow> exn + document \<Rightarrow> exn + document \<Rightarrow> exn + text_only_response" where
  "parse_pdf_text_only file opened reopened =
     outer_handlers
       (if \<not> is_pdf file then Inl (HTTPException 400)
        else (case opened of
                Inl e \<Rightarrow> if is_RuntimeError e then retry_text_only file reopened else Inl e
              | Inr doc \<Rightarrow>
                  if needs_pass doc then Inl (HTTPException 400)
                  else (case text_only_attempt file doc of
                          Inr r \<Rightarrow> Inr r
                        | Inl e \<Rightarrow>
                            if is_RuntimeError e then retry_text_only file reopened
                            else Inl e)))"

section \<open>Notions of the specification\<close>

text \<open>
  An occurrence of word character, hyphen, newline, word character at the head of a text,
  and anywhere in it.
\<close>

fun break_at :: "string \<Rightarrow> bool" where
  "break_at (a # h # n # b # rest) = (is_word a \<and> h = CHR ''-'' \<and> n = NL \<and> is_word b)"
| "break_at s = False"

fun has_break :: "string \<Rightarrow> bool" where
  "has_break [] = False"
| "has_break (c # cs) = (break_at (c # cs) \<or> has_break cs)"



text \<open>
  A split scheme separator at the head of a text, and anywhere in it: the URL pattern
  matches and what it matches is not yet \<open>https://\<close>.
\<close>

definition split_url_at :: "string \<Rightarrow> bool" where
  "split_url_at s = (match_url s \<noteq> None \<and> take 8 s \<noteq> ''https://'')"

fun has_split_url :: "string \<Rightarrow> bool" where
  "has_split_url [] = False"
| "has_split_url (c # cs) = (split_url_at (c # cs) \<or> has_split_url cs)"

text \<open>
  The relation between the two variables of \<open>parse_pdf\<close>: \<open>full_text\<close> is the texts of
  the pages collected so far, each followed by a newline.
\<close>

definition acc_ok :: "acc \<Rightarrow> bool" where
  "acc_ok a = (full_text a = concat (map (\<lambda>p. page_text p @ [NL]) (pages_data a)))"

text \<open>The pages of a response whose texts are \<open>txts\<close>, numbered from \<open>n + 1\<close> on.\<close>

definition numbered_pages :: "nat \<Rightarrow> string list \<Rightarrow> PageText list" where
  "numbered_pages n txts =
     map (\<lambda>(i, t). \<lparr>page_number = int i + 1, page_text = t\<rparr>) (zip [n..<n + length txts] txts)"

section \<open>Sample inputs\<close>

definition pdf_upload :: upload_file where
  "pdf_upload = \<lparr>content_type = Some ''application/pdf'', filename = ''cv.pdf'',
                  file_content = ''%PDF-1.7''\<rparr>"

text \<open>A page without positioned spans and without blocks, with plain text \<open>t\<close>.\<close>

definition plain_page :: "string \<Rightarrow> page" where
  "plain_page t = \<lparr>get_text_rawdict = Inr [], get_text_blocks = Inr [], get_text_text = Inr t\<rparr>"

text \<open>A page whose positioned spans read \<open>Rich\<close> and whose plain text reads \<open>Plain\<close>.\<close>

definition rich_page :: page where
  "rich_page =
     \<lparr>get_text_rawdict =
        Inr [\<lparr>block_bbox = (0, 0, 100, 12), block_type = Some 0,
              block_lines = [\<lparr>line_bbox = (0, 0, 100, 12),
                               line_spans = [\<lparr>span_text = ''Rich'', origin = (0, 10)\<rparr>]\<rparr>]\<rparr>],
      get_text_blocks = Inr [],
      get_text_text = Inr ''Plain''\<rparr>"

text \<open>A page that delivers neither positioned spans nor blocks, only plain text.\<close>

definition degraded_page :: page where
  "degraded_page = \<lparr>get_text_rawdict = Inl RuntimeError, get_text_blocks = Inl RuntimeError,
                     get_text_text = Inr ''Plain''\<rparr>"

text \<open>A page on which all three requests raise.\<close>

definition failing_page :: page where
  "failing_page = \<lparr>get_text_rawdict = Inl RuntimeError, get_text_blocks = Inl RuntimeError,
                    get_text_text = Inl RuntimeError\<rparr>"

section \<open>Properties of the text normalizer\<close>

lemmas normalizer_eval =
  post_process_text_def strip_def remove_nulls_def match_url_def
  is_space_def is_word_def NL_def NUL_def



lemma is_space_NL: "is_space NL"
  by (simp add: is_space_def NL_def)

lemma not_space_slash: "\<not> is_space (CHR ''/'')"
  by (simp add: is_space_def)

lemma hyphen_join_no_break: "\<not> has_break s \<Longrightarrow> hyphen_join s = s"
  by (induction s rule: hyphen_join.induct) auto



lemma match_url_trivial:
  assumes "match_url s = Some r" and "take 8 s = ''https://''"
  shows "s = ''https://'' @ r"
proof -
  from assms(2) have "take 8 s @ drop 8 s = ''https://'' @ drop 8 s" by simp
  then have s: "s = ''https://'' @ drop 8 s" by simp
  have "match_url (''https://'' @ drop 8 s) = Some (drop 8 s)"
    by (simp add: match_url_def not_space_slash)
  with s assms(1) have "r = drop 8 s" by simp
  with s show ?thesis by simp
qed

lemma has_split_url_suffix: "has_split_url (drop k s) \<Longrightarrow> has_split_url s"
proof (induction s arbitrary: k)
  case Nil then show ?case by simp
next
  case (Cons c cs)
  show ?case
  proof (cases k)
    case 0 with Cons.prems show ?thesis by simp
  next
    case (Suc j)
    with Cons.prems have "has_split_url (drop j cs)" by simp
    then have "has_split_url cs" by (rule Cons.IH)
    then show ?thesis by simp
  qed
qed

lemma url_fix_no_split: "\<not> has_split_url s \<Longrightarrow> url_fix s = s"
proof (induction s rule: url_fix.induct)
  case 1 show ?case by simp
next
  case (2 c cs)
  show ?case
  proof (cases "match_url (c # cs)")
    case None
    with 2 show ?thesis by simp
  next
    case (Some r)
    with "2.prems" have t: "take 8 (c # cs) = ''https://''"
      by (auto simp: split_url_at_def)
    from Some t have s: "c # cs = ''https://'' @ r" by (rule match_url_trivial)
    then have "r = drop 8 (c # cs)" by simp
    with "2.prems" have "\<not> has_split_url r"
      using has_split_url_suffix[of 8 "c # cs"] by auto
    with "2.IH"(2)[OF Some] have "url_fix r = r" by simp
    with Some s show ?thesis by simp
  qed
qed

lemma last_dropWhile_nonempty: "dropWhile P xs \<noteq> [] \<Longrightarrow> last (dropWhile P xs) = last xs"
proof -
  assume d: "dropWhile P xs \<noteq> []"
  have "last xs = last (takeWhile P xs @ dropWhile P xs)" by simp
  also from d have "\<dots> = last (dropWhile P xs)" by (simp only: last_append if_False)
  finally show ?thesis by simp
qed

lemma dropWhile_rev_nonempty: "dropWhile P (rev xs) \<noteq> [] \<Longrightarrow> xs \<noteq> []"
  by auto

lemma set_dropWhile_subset: "set (dropWhile P xs) \<subseteq> set xs"
  by (auto dest: set_dropWhileD)

lemma strip_hd: "strip s \<noteq> [] \<Longrightarrow> \<not> is_space (hd (strip s))"
proof -
  assume n: "strip s \<noteq> []"
  let ?t = "dropWhile is_space s"
  let ?u = "dropWhile is_space (rev ?t)"
  from n have u: "?u \<noteq> []" by (simp add: strip_def)
  then have t: "?t \<noteq> []" by (rule dropWhile_rev_nonempty)
  from u have "hd (strip s) = last ?u" by (simp add: strip_def hd_rev)
  also from u have "\<dots> = last (rev ?t)" by (rule last_dropWhile_nonempty)
  also from t have "\<dots> = hd ?t" by (simp add: last_rev)
  finally show ?thesis using t hd_dropWhile[of is_space s] by simp
qed

lemma strip_last: "strip s \<noteq> [] \<Longrightarrow> \<not> is_space (last (strip s))"
proof -
  assume n: "strip s \<noteq> []"
  let ?u = "dropWhile is_space (rev (dropWhile is_space s))"
  from n have u: "?u \<noteq> []" by (simp add: strip_def)
  then have "last (strip s) = hd ?u" by (simp add: strip_def last_rev)
  with u show ?thesis using hd_dropWhile[of is_space "rev (dropWhile is_space s)"] by simp
qed

lemma strip_fixed: "s = [] \<or> (\<not> is_space (hd s) \<and> \<not> is_space (last s)) \<Longrightarrow> strip s = s"
proof (cases s)
  case Nil then show ?thesis by (simp add: strip_def)
next
  case (Cons c cs)
  assume "s = [] \<or> (\<not> is_space (hd s) \<and> \<not> is_space (last s))"
  with Cons have h: "\<not> is_space (hd s)" and l: "\<not> is_space (last s)" and ne: "s \<noteq> []" by auto
  from h ne have 1: "dropWhile is_space s = s" by (cases s) auto
  from l ne have "\<not> is_space (hd (rev s))" by (simp add: hd_rev)
  with ne have 2: "dropWhile is_space (rev s) = rev s" by (cases "rev s") auto
  show ?thesis by (simp add: strip_def 1 2)
qed

lemma strip_strip: "strip (strip s) = strip s"
  by (rule strip_fixed) (use strip_hd strip_last in blast)

lemma set_strip: "set (strip s) \<subseteq> set s"
proof -
  have "set (strip s) \<subseteq> set (rev (dropWhile is_space s))"
    using set_dropWhile_subset[of is_space "rev (dropWhile is_space s)"]
    by (simp add: strip_def)
  also have "\<dots> \<subseteq> set s"
    using set_dropWhile_subset[of is_space s] by simp
  finally show ?thesis .
qed

lemma set_hyphen_join: "set (hyphen_join s) \<subseteq> set s"
  by (induction s rule: hyphen_join.induct) auto

lemma match_url_set: "match_url s = Some r \<Longrightarrow> set r \<subseteq> set s"
proof -
  assume "match_url s = Some r"
  then obtain c where d: "dropWhile is_space (drop 7 s) = c # r"
    by (auto simp: match_url_def split: if_splits list.splits)
  have "set r \<subseteq> set (dropWhile is_space (drop 7 s))" by (simp add: d subset_insertI)
  also have "\<dots> \<subseteq> set (drop 7 s)" by (rule set_dropWhile_subset)
  also have "\<dots> \<subseteq> set s" by (rule set_drop_subset)
  finally show ?thesis .
qed

lemma NUL_url_fix: "NUL \<notin> set s \<Longrightarrow> NUL \<notin> set (url_fix s)"
proof (induction s rule: url_fix.induct)
  case 1 show ?case by simp
next
  case (2 c cs)
  show ?case
  proof (cases "match_url (c # cs)")
    case None
    with 2 show ?thesis by simp
  next
    case (Some r)
    with "2.prems" have "NUL \<notin> set r" using match_url_set[OF Some] by blast
    with "2.IH"(2)[OF Some] have "NUL \<notin> set (url_fix r)" by simp
    with Some show ?thesis by (simp add: NUL_def)
  qed
qed

lemma NUL_post_process_text: "NUL \<notin> set (post_process_text s)"
proof (cases "s = []")
  case True then show ?thesis by (simp add: post_process_text_def)
next
  case False
  have "NUL \<notin> set (remove_nulls s)" by (simp add: remove_nulls_def)
  then have "NUL \<notin> set (url_fix (remove_nulls s))" by (rule NUL_url_fix)
  then have "NUL \<notin> set (hyphen_join (url_fix (remove_nulls s)))"
    using set_hyphen_join by blast
  then have "NUL \<notin> set (strip (hyphen_join (url_fix (remove_nulls s))))"
    using set_strip by blast
  with False show ?thesis by (simp add: post_process_text_def)
qed

lemma remove_nulls_id: "NUL \<notin> set s \<Longrightarrow> remove_nulls s = s"
  by (induction s) (auto simp: remove_nulls_def)

lemma post_process_text_ends:
  "post_process_text s = [] \<or>
   (\<not> is_space (hd (post_process_text s)) \<and> \<not> is_space (last (post_process_text s)))"
  by (cases "s = []") (use strip_hd strip_last in \<open>auto simp: post_process_text_def\<close>)


lemma url_fix_Nil_iff: "url_fix x = [] \<longleftrightarrow> x = []"
  by (cases x) (auto split: option.splits)

lemma url_fix_no_match: "match_url (c # cs) = None \<Longrightarrow> url_fix (c # cs) = c # url_fix cs"
  by simp

lemma url_fix_match: "match_url (c # cs) = Some r \<Longrightarrow> url_fix (c # cs) = ''https://'' @ url_fix r"
  by simp

lemma match_url_h: "match_url (c # cs) = Some r \<Longrightarrow> c = CHR ''h''"
  by (auto simp: match_url_def split: if_splits)

lemma url_fix_prefix:
  "url_fix x = p @ y \<Longrightarrow> CHR ''h'' \<notin> set p \<Longrightarrow> \<exists>x'. x = p @ x' \<and> url_fix x' = y"
proof (induction p arbitrary: x)
  case Nil
  then show ?case by simp
next
  case (Cons q p)
  from Cons.prems(1) have "url_fix x \<noteq> []" by simp
  then have "x \<noteq> []" by (simp add: url_fix_Nil_iff)
  then obtain d x1 where x: "x = d # x1" by (cases x) auto
  show ?case
  proof (cases "match_url (d # x1)")
    case (Some r)
    with Cons.prems x have "q = CHR ''h''" by (simp add: url_fix_match del: url_fix.simps)
    with Cons.prems(2) show ?thesis by simp
  next
    case None
    with Cons.prems(1) x have dq: "d = q" and u: "url_fix x1 = p @ y"
      by (simp_all add: url_fix_no_match del: url_fix.simps)
    from Cons.prems(2) have "CHR ''h'' \<notin> set p" by simp
    with u have "\<exists>x'. x1 = p @ x' \<and> url_fix x' = y"
      by (rule Cons.IH)
    then obtain x' where "x1 = p @ x'" and "url_fix x' = y"
      by (elim exE conjE)
    with x dq show ?thesis by simp
  qed
qed

lemma not_space_h: "\<not> is_space (CHR ''h'')"
  by (simp add: is_space_def)

lemma url_fix_after_spaces:
  "dropWhile is_space (url_fix x) = CHR ''/'' # r' \<Longrightarrow> \<exists>r. dropWhile is_space x = CHR ''/'' # r"
proof (induction x rule: url_fix.induct)
  case 1
  then show ?case by simp
next
  case (2 c cs)
  show ?case
  proof (cases "match_url (c # cs)")
    case (Some r)
    with "2.prems" show ?thesis by (simp add: url_fix_match not_space_h del: url_fix.simps)
  next
    case None
    show ?thesis
    proof (cases "is_space c")
      case True
      with "2.prems" None have "dropWhile is_space (url_fix cs) = CHR ''/'' # r'"
        by (simp add: url_fix_no_match del: url_fix.simps)
      from "2.IH"(1)[OF None this] obtain r where "dropWhile is_space cs = CHR ''/'' # r" ..
      with True show ?thesis by simp
    next
      case False
      with "2.prems" None have "c = CHR ''/''"
        by (simp add: url_fix_no_match del: url_fix.simps)
      with False show ?thesis by simp
    qed
  qed
qed

lemma match_url_url_fix:
  assumes "match_url (c # url_fix cs) \<noteq> None"
  shows "match_url (c # cs) \<noteq> None"
proof -
  from assms have c: "c = CHR ''h''" using match_url_h by blast
  from assms have t: "take 7 (c # url_fix cs) = ''https:/''"
    by (auto simp: match_url_def split: if_splits)
  with c have t6: "take 6 (url_fix cs) = ''ttps:/''" by simp
  have "url_fix cs = take 6 (url_fix cs) @ drop 6 (url_fix cs)" by simp
  with t6 have "url_fix cs = ''ttps:/'' @ drop 6 (url_fix cs)" by simp
  moreover have "CHR ''h'' \<notin> set ''ttps:/''" by simp
  ultimately have "\<exists>x'. cs = ''ttps:/'' @ x' \<and> url_fix x' = drop 6 (url_fix cs)"
    by (rule url_fix_prefix)
  then obtain x' where cs: "cs = ''ttps:/'' @ x'" and x': "url_fix x' = drop 6 (url_fix cs)"
    by (elim exE conjE)
  from assms obtain r' where "dropWhile is_space (drop 7 (c # url_fix cs)) = CHR ''/'' # r'"
    by (auto simp: match_url_def split: if_splits list.splits)
  with x' have "dropWhile is_space (url_fix x') = CHR ''/'' # r'" by simp
  from url_fix_after_spaces[OF this] obtain r where "dropWhile is_space x' = CHR ''/'' # r" ..
  with c cs show ?thesis by (simp add: match_url_def)
qed

lemma url_fix_clean: "\<not> has_split_url (url_fix s)"
proof (induction s rule: url_fix.induct)
  case 1
  show ?case by simp
next
  case (2 c cs)
  show ?case
  proof (cases "match_url (c # cs)")
    case (Some r)
    with "2.IH"(2) have "\<not> has_split_url (url_fix r)" by simp
    then have "\<not> has_split_url (''https://'' @ url_fix r)"
      by (simp add: split_url_at_def match_url_def)
    with Some show ?thesis by (simp add: url_fix_match del: url_fix.simps)
  next
    case None
    with "2.IH"(1) have ih: "\<not> has_split_url (url_fix cs)" by simp
    from None have "match_url (c # url_fix cs) = None"
      using match_url_url_fix[of c cs] by blast
    with ih None show ?thesis by (simp add: split_url_at_def)
  qed
qed

lemma dropWhile_take_head:
  "dropWhile P (take m y) = z # zs \<Longrightarrow> \<exists>zs'. dropWhile P y = z # zs'"
proof (induction y arbitrary: m)
  case Nil
  then show ?case by simp
next
  case (Cons a y)
  then show ?case by (cases m) (auto split: if_splits)
qed

lemma split_url_at_take: "split_url_at (take k s) \<Longrightarrow> split_url_at s"
proof -
  assume a: "split_url_at (take k s)"
  then have t7: "take 7 (take k s) = ''https:/''"
    by (auto simp: split_url_at_def match_url_def split: if_splits)
  then have "length (take 7 (take k s)) = 7" by simp
  then have k: "7 \<le> k" and l: "7 \<le> length s" by simp_all
  from t7 k have s7: "take 7 s = ''https:/''" by (simp add: min_def)
  from a obtain r where "dropWhile is_space (drop 7 (take k s)) = CHR ''/'' # r"
    by (auto simp: split_url_at_def match_url_def split: if_splits list.splits)
  then have d: "dropWhile is_space (take (k - 7) (drop 7 s)) = CHR ''/'' # r"
    by (simp add: drop_take)
  from dropWhile_take_head[OF d] obtain r' where "dropWhile is_space (drop 7 s) = CHR ''/'' # r'" ..
  with s7 have m: "match_url s \<noteq> None" by (simp add: match_url_def)
  have "take 8 s \<noteq> ''https://''"
  proof
    assume e: "take 8 s = ''https://''"
    from d have "take (k - 7) (drop 7 s) \<noteq> []" by auto
    then have "8 \<le> k" by (cases "k = 7") (use k in auto)
    with e have "take 8 (take k s) = ''https://''" by (simp add: min_def)
    with a show False by (simp add: split_url_at_def)
  qed
  with m show ?thesis by (simp add: split_url_at_def)
qed

lemma has_split_url_take: "has_split_url (take k s) \<Longrightarrow> has_split_url s"
proof (induction s arbitrary: k)
  case Nil
  then show ?case by simp
next
  case (Cons c cs)
  show ?case
  proof (cases k)
    case 0
    with Cons.prems show ?thesis by simp
  next
    case (Suc j)
    with Cons.prems have "split_url_at (take k (c # cs)) \<or> has_split_url (take j cs)"
      by simp
    then show ?thesis
    proof
      assume "split_url_at (take k (c # cs))"
      then have "split_url_at (c # cs)" by (rule split_url_at_take)
      then show ?thesis by simp
    next
      assume "has_split_url (take j cs)"
      then have "has_split_url cs" by (rule Cons.IH)
      then show ?thesis by simp
    qed
  qed
qed

lemma rev_dropWhile_rev: "\<exists>k. rev (dropWhile P (rev t)) = take k t"
proof -
  let ?m = "length (takeWhile P (rev t))"
  have "dropWhile P (rev t) = drop ?m (rev t)"
    by (rule dropWhile_eq_drop)
  then have "rev (dropWhile P (rev t)) = rev (drop ?m (rev t))"
    by (simp only:)
  also have "\<dots> = take (length (rev t) - ?m) (rev (rev t))"
    by (rule rev_drop)
  also have "\<dots> = take (length t - ?m) t"
    by (simp only: rev_rev_ident length_rev)
  finally have "rev (dropWhile P (rev t)) = take (length t - ?m) t" .
  then show ?thesis by (rule exI)
qed

lemma strip_as_take_drop: "\<exists>j k. strip s = take k (drop j s)"
proof -
  let ?j = "length (takeWhile is_space s)"
  have 1: "dropWhile is_space s = drop ?j s"
    by (rule dropWhile_eq_drop)
  from rev_dropWhile_rev[of is_space "dropWhile is_space s"]
  obtain k where "rev (dropWhile is_space (rev (dropWhile is_space s)))
      = take k (dropWhile is_space s)"
    by (elim exE)
  then have "strip s = take k (dropWhile is_space s)"
    by (simp only: strip_def)
  then have "strip s = take k (drop ?j s)"
    by (simp only: 1 [symmetric])
  then show ?thesis by (intro exI)
qed

lemma has_split_url_strip: "has_split_url (strip s) \<Longrightarrow> has_split_url s"
proof -
  assume a: "has_split_url (strip s)"
  from strip_as_take_drop[of s] obtain j k where e: "strip s = take k (drop j s)"
    by (elim exE)
  from a have "has_split_url (take k (drop j s))" by (simp only: e)
  then have "has_split_url (drop j s)" by (rule has_split_url_take)
  then show ?thesis by (rule has_split_url_suffix)
qed

lemma has_break_hyphen: "has_break s \<Longrightarrow> CHR ''-'' \<in> set s"
  by (induction s rule: has_break.induct) (auto elim: break_at.elims)

lemma set_url_fix: "set (url_fix s) \<subseteq> set s \<union> set ''https://''"
proof (induction s rule: url_fix.induct)
  case 1
  show ?case by simp
next
  case (2 c cs)
  show ?case
  proof (cases "match_url (c # cs)")
    case None
    with "2.IH"(1) show ?thesis by auto
  next
    case (Some r)
    with "2.IH"(2) have "set (url_fix r) \<subseteq> set r \<union> set ''https://''" by simp
    moreover from Some have "set r \<subseteq> set (c # cs)" by (rule match_url_set)
    ultimately have "set (''https://'' @ url_fix r) \<subseteq> set (c # cs) \<union> set ''https://''"
      by auto
    with Some show ?thesis by (simp only: url_fix_match)
  qed
qed

lemma no_hyphen_normal_form:
  assumes "CHR ''-'' \<notin> set s"
  shows "\<not> has_break (post_process_text s) \<and> \<not> has_split_url (post_process_text s)"
proof (cases "s = []")
  case True
  then show ?thesis by (simp add: post_process_text_def)
next
  case False
  let ?u = "url_fix (remove_nulls s)"
  from assms have "CHR ''-'' \<notin> set (remove_nulls s)" by (simp add: remove_nulls_def)
  with set_url_fix[of "remove_nulls s"] have h: "CHR ''-'' \<notin> set ?u" by auto
  then have "\<not> has_break ?u" using has_break_hyphen by blast
  then have j: "hyphen_join ?u = ?u" by (rule hyphen_join_no_break)
  with False have p: "post_process_text s = strip ?u" by (simp add: post_process_text_def)
  from h set_strip[of ?u] have "CHR ''-'' \<notin> set (strip ?u)" by auto
  then have 1: "\<not> has_break (strip ?u)" using has_break_hyphen by blast
  have 2: "\<not> has_split_url (strip ?u)" using url_fix_clean has_split_url_strip by blast
  from 1 2 p show ?thesis by simp
qed

lemma normal_form_fixed:
  assumes "\<not> has_break (post_process_text s)"
    and "\<not> has_split_url (post_process_text s)"
  shows "post_process_text (post_process_text s) = post_process_text s"
proof -
  let ?t = "post_process_text s"
  have "remove_nulls ?t = ?t" by (rule remove_nulls_id) (rule NUL_post_process_text)
  moreover from assms(2) have "url_fix ?t = ?t" by (rule url_fix_no_split)
  moreover from assms(1) have "hyphen_join ?t = ?t" by (rule hyphen_join_no_break)
  moreover have "strip ?t = ?t" by (rule strip_fixed) (rule post_process_text_ends)
  ultimately show ?thesis by (simp add: post_process_text_def[of ?t])
qed

text \<open>
  Claim C4, as amended. Applying the normalizer a second time changes nothing whenever the
  text normalized once holds no occurrence of word character, hyphen, newline, word
  character and no split scheme separator (\<open>https:/\<close>, whitespace, \<open>/\<close>). Both can be left
  by the first pass: the matches of the hyphen rule do not overlap, and the URL rule runs
  before the hyphen rule. Neither is left when the input holds no hyphen, so on every
  such input the normalizer is idempotent.
\<close>

theorem post_process_text_twice:
  "(\<not> has_break (post_process_text s) \<and> \<not> has_split_url (post_process_text s) \<longrightarrow>
      post_process_text (post_process_text s) = post_process_text s)
   \<and> (CHR ''-'' \<notin> set s \<longrightarrow>
      post_process_text (post_process_text s) = post_process_text s)"
  using normal_form_fixed[of s] no_hyphen_normal_form[of s] by blast

theorem post_process_text_twice_witness:
  "\<not> has_break (post_process_text ''  exam-\<newline>ple https:/ /x.org  '')
   \<and> \<not> has_split_url (post_process_text ''  exam-\<newline>ple https:/ /x.org  '')
   \<and> post_process_text (post_process_text ''  exam-\<newline>ple https:/ /x.org  '')
       = post_process_text ''  exam-\<newline>ple https:/ /x.org  ''
   \<and> post_process_text ''  exam-\<newline>ple https:/ /x.org  '' = ''example https://x.org''
   \<and> CHR ''-'' \<notin> set '' see https:/ /x.org ''
   \<and> post_process_text (post_process_text '' see https:/ /x.org '')
       = post_process_text '' see https:/ /x.org ''
   \<and> post_process_text '' see https:/ /x.org '' = ''see https://x.org''"
proof -
  have v: "post_process_text ''  exam-\<newline>ple https:/ /x.org  '' = ''example https://x.org''"
    by (simp add: normalizer_eval)
  have b: "\<not> has_break ''example https://x.org''"
    by (simp add: is_word_def NL_def)
  have u: "\<not> has_split_url ''example https://x.org''"
    by (simp add: split_url_at_def match_url_def is_space_def)
  from b u have 1: "post_process_text (post_process_text ''  exam-\<newline>ple https:/ /x.org  '')
       = post_process_text ''  exam-\<newline>ple https:/ /x.org  ''"
    using post_process_text_twice [of "''  exam-\<newline>ple https:/ /x.org  ''"]
    by (simp only: v simp_thms)
  have h: "CHR ''-'' \<notin> set '' see https:/ /x.org ''" by simp
  then have 2: "post_process_text (post_process_text '' see https:/ /x.org '')
       = post_process_text '' see https:/ /x.org ''"
    using post_process_text_twice [of "'' see https:/ /x.org ''"] by blast
  have w: "post_process_text '' see https:/ /x.org '' = ''see https://x.org''"
    by (simp add: normalizer_eval)
  from v b u 1 h 2 w show ?thesis by (simp only: simp_thms)
qed

text \<open>
  Claim C4, as stated, fails: the first pass joins \<open>a-\<newline>b\<close> and resumes behind \<open>b\<close>, so
  \<open>b-\<newline>c\<close> is left for the second pass.
\<close>

theorem post_process_text_not_idempotent:
  "post_process_text ''a-\<newline>b-\<newline>c'' = ''ab-\<newline>c''
   \<and> post_process_text (post_process_text ''a-\<newline>b-\<newline>c'') = ''abc''
   \<and> post_process_text (post_process_text ''a-\<newline>b-\<newline>c'')
       \<noteq> post_process_text ''a-\<newline>b-\<newline>c''"
  by (simp add: post_process_text_def strip_def remove_nulls_def match_url_def
      is_space_def is_word_def NL_def NUL_def)




section \<open>Properties of the parse operations\<close>

lemma primary_loop_acc_ok:
  "primary_loop ls n a = (r, a') \<Longrightarrow> acc_ok a \<Longrightarrow> acc_ok a'"
proof (induction ls arbitrary: n a)
  case Nil
  then show ?case by simp
next
  case (Cons l ls)
  show ?case
  proof (cases l)
    case (Inl e)
    with Cons.prems show ?thesis by simp
  next
    case (Inr pg)
    show ?thesis
    proof (cases "extract_page_text_rawdict pg")
      case (Inl e)
      with Cons.prems \<open>l = Inr pg\<close> show ?thesis by simp
    next
      case t: (Inr tx)
      let ?a = "\<lparr>pages_data = pages_data a @
                  [\<lparr>page_number = int n + 1, page_text = post_process_text tx\<rparr>],
                full_text = full_text a @ post_process_text tx @ [NL]\<rparr>"
      from Cons.prems(1) Inr t have "primary_loop ls (Suc n) ?a = (r, a')"
        by (simp add: Let_def)
      moreover from Cons.prems(2) have "acc_ok ?a" by (simp add: acc_ok_def)
      ultimately show ?thesis by (rule Cons.IH)
    qed
  qed
qed

lemma retry_loop_acc_ok:
  "retry_loop ls n a = (r, a') \<Longrightarrow> acc_ok a \<Longrightarrow> acc_ok a'"
proof (induction ls arbitrary: n a)
  case Nil
  then show ?case by simp
next
  case (Cons l ls)
  show ?case
  proof (cases l)
    case (Inl e)
    with Cons.prems show ?thesis by simp
  next
    case (Inr pg)
    show ?thesis
    proof (cases "get_text_text pg")
      case (Inl e)
      with Cons.prems \<open>l = Inr pg\<close> show ?thesis by simp
    next
      case t: (Inr tx)
      let ?a = "\<lparr>pages_data = pages_data a @
                  [\<lparr>page_number = int n + 1, page_text = strip (remove_nulls tx)\<rparr>],
                full_text = full_text a @ strip (remove_nulls tx) @ [NL]\<rparr>"
      from Cons.prems(1) Inr t have "retry_loop ls (Suc n) ?a = (r, a')"
        by (simp add: Let_def)
      moreover from Cons.prems(2) have "acc_ok ?a" by (simp add: acc_ok_def)
      ultimately show ?thesis by (rule Cons.IH)
    qed
  qed
qed

lemma retry_parse_Inr:
  assumes "retry_parse file reopened a = Inr resp" and "acc_ok a"
  shows "\<exists>a' n. acc_ok a' \<and> resp = make_response file a' n"
proof -
  from assms(1) obtain doc where d: "reopened = Inr doc"
    by (cases reopened) (simp_all add: retry_parse_def)
  obtain r a' where l: "retry_loop (load_page doc) 0 a = (r, a')"
    by (cases "retry_loop (load_page doc) 0 a") 
  with assms(1) d have "r = None" and "resp = make_response file a' (length (load_page doc))"
    by (cases r; simp add: retry_parse_def)+
  moreover from l assms(2) have "acc_ok a'" by (rule retry_loop_acc_ok)
  ultimately show ?thesis by blast
qed

lemma outer_handlers_Inr: "outer_handlers r = Inr x \<Longrightarrow> r = Inr x"
  by (cases r) (simp_all add: outer_handlers_def split: if_splits)

lemma parse_pdf_Inr:
  assumes "parse_pdf file opened reopened = Inr resp"
  shows "\<exists>a n. acc_ok a \<and> resp = make_response file a n"
proof -
  let ?a0 = "\<lparr>pages_data = [], full_text = []\<rparr>"
  have a0: "acc_ok ?a0" by (simp add: acc_ok_def)
  from assms have pdf: "is_pdf file"
    by (auto simp: parse_pdf_def dest!: outer_handlers_Inr split: if_splits)
  show ?thesis
  proof (cases opened)
    case (Inl e)
    with assms pdf have "retry_parse file reopened ?a0 = Inr resp"
      by (auto simp: parse_pdf_def dest!: outer_handlers_Inr split: if_splits)
    then show ?thesis using a0 by (rule retry_parse_Inr)
  next
    case (Inr doc)
    obtain r a where l: "primary_loop (load_page doc) 0 ?a0 = (r, a)"
      by (cases "primary_loop (load_page doc) 0 ?a0")
    from l a0 have a: "acc_ok a" by (rule primary_loop_acc_ok)
    from assms pdf Inr l have np: "\<not> needs_pass doc"
      by (auto simp: parse_pdf_def dest!: outer_handlers_Inr split: if_splits)
    show ?thesis
    proof (cases r)
      case None
      with assms pdf Inr l np have "resp = make_response file a (length (load_page doc))"
        by (auto simp: parse_pdf_def dest!: outer_handlers_Inr)
      with a show ?thesis by blast
    next
      case (Some e)
      with assms pdf Inr l np have "retry_parse file reopened a = Inr resp"
        by (auto simp: parse_pdf_def dest!: outer_handlers_Inr split: if_splits)
      then show ?thesis using a by (rule retry_parse_Inr)
    qed
  qed
qed

lemma parse_pdf_text_only_Inr:
  assumes "parse_pdf_text_only file opened reopened = Inr resp"
  shows "\<exists>ft. only_text resp = post_process_text ft"
proof -
  have att: "\<And>doc r. text_only_attempt file doc = Inr r \<Longrightarrow> \<exists>ft. only_text r = post_process_text ft"
    by (auto simp: text_only_attempt_def split: sum.splits)
  have ret: "\<And>r. retry_text_only file reopened = Inr r \<Longrightarrow> \<exists>ft. only_text r = post_process_text ft"
    by (auto simp: retry_text_only_def split: sum.splits dest: att)
  from assms have "(\<exists>doc. text_only_attempt file doc = Inr resp) \<or> retry_text_only file reopened = Inr resp"
    by (auto simp: parse_pdf_text_only_def dest!: outer_handlers_Inr split: if_splits sum.splits)
  with att ret show ?thesis by blast
qed

lemma numbered_pages_Cons:
  "numbered_pages n (t # ts) = \<lparr>page_number = int n + 1, page_text = t\<rparr> # numbered_pages (Suc n) ts"
proof -
  have "[n..<n + length (t # ts)] = n # [Suc n..<Suc n + length ts]"
    by (simp add: upt_conv_Cons del: upt_Suc)
  then show ?thesis by (simp add: numbered_pages_def del: upt_Suc)
qed

lemma primary_loop_all:
  "map extract_page_text_rawdict pgs = map Inr txts \<Longrightarrow>
   primary_loop (map Inr pgs) n a =
     (None, \<lparr>pages_data = pages_data a @ numbered_pages n (map post_process_text txts),
             full_text = full_text a @ concat (map (\<lambda>t. post_process_text t @ [NL]) txts)\<rparr>)"
proof (induction pgs arbitrary: txts n a)
  case Nil
  then show ?case by (simp add: numbered_pages_def)
next
  case (Cons pg pgs)
  from Cons.prems obtain t ts where txts: "txts = t # ts"
    and t: "extract_page_text_rawdict pg = Inr t"
    and ts: "map extract_page_text_rawdict pgs = map Inr ts"
    by (cases txts) auto
  show ?case
    by (simp add: txts t Cons.IH[OF ts] numbered_pages_Cons Let_def)
qed

lemma retry_loop_all:
  "map get_text_text pgs = map Inr txts \<Longrightarrow>
   retry_loop (map Inr pgs) n a =
     (None, \<lparr>pages_data = pages_data a @ numbered_pages n (map (\<lambda>t. strip (remove_nulls t)) txts),
             full_text = full_text a @ concat (map (\<lambda>t. strip (remove_nulls t) @ [NL]) txts)\<rparr>)"
proof (induction pgs arbitrary: txts n a)
  case Nil
  then show ?case by (simp add: numbered_pages_def)
next
  case (Cons pg pgs)
  from Cons.prems obtain t ts where txts: "txts = t # ts"
    and t: "get_text_text pg = Inr t"
    and ts: "map get_text_text pgs = map Inr ts"
    by (cases txts) auto
  show ?case
    by (simp add: txts t Cons.IH[OF ts] numbered_pages_Cons Let_def)
qed

lemma text_only_loop_all:
  "map extract_page_text_rawdict pgs = map Inr txts \<Longrightarrow>
   text_only_loop (map Inr pgs) ft = Inr (ft @ concat (map (\<lambda>t. t @ [NL]) txts))"
proof (induction pgs arbitrary: txts ft)
  case Nil
  then show ?case by simp
next
  case (Cons pg pgs)
  from Cons.prems obtain t ts where txts: "txts = t # ts"
    and t: "extract_page_text_rawdict pg = Inr t"
    and ts: "map extract_page_text_rawdict pgs = map Inr ts"
    by (cases txts) auto
  show ?case
    by (simp add: txts t Cons.IH[OF ts])
qed

lemma parse_pdf_first_pass:
  assumes "is_pdf file" and "\<not> needs_pass doc" and "load_page doc = map Inr pgs"
    and "map extract_page_text_rawdict pgs = map Inr txts"
  shows "parse_pdf file (Inr doc) reopened =
     Inr \<lparr>response_text =
            post_process_text (concat (map (\<lambda>t. post_process_text t @ [NL]) txts)),
          pages = numbered_pages 0 (map post_process_text txts),
          metadata = \<lparr>meta_page_count = int (length pgs), meta_filename = filename file,
                      meta_file_size = int (length (file_content file))\<rparr>\<rparr>"
  using assms
  by (simp add: parse_pdf_def outer_handlers_def primary_loop_all make_response_def)

lemma parse_pdf_retry:
  assumes "is_pdf file" and "is_RuntimeError e" and "load_page doc = map Inr pgs"
    and "map get_text_text pgs = map Inr txts"
  shows "parse_pdf file (Inl e) (Inr doc) =
     Inr \<lparr>response_text =
            post_process_text (concat (map (\<lambda>t. strip (remove_nulls t) @ [NL]) txts)),
          pages = numbered_pages 0 (map (\<lambda>t. strip (remove_nulls t)) txts),
          metadata = \<lparr>meta_page_count = int (length pgs), meta_filename = filename file,
                      meta_file_size = int (length (file_content file))\<rparr>\<rparr>"
  using assms
  by (simp add: parse_pdf_def outer_handlers_def retry_parse_def retry_loop_all make_response_def)

lemma parse_pdf_text_only_retry:
  assumes "is_pdf file" and "is_RuntimeError e" and "load_page doc = map Inr pgs"
    and "map extract_page_text_rawdict pgs = map Inr txts"
  shows "parse_pdf_text_only file (Inl e) (Inr doc) =
     Inr \<lparr>only_text = post_process_text (concat (map (\<lambda>t. t @ [NL]) txts)),
          only_page_count = int (length pgs), only_filename = filename file\<rparr>"
  using assms
  by (simp add: parse_pdf_text_only_def outer_handlers_def retry_text_only_def
      text_only_attempt_def text_only_loop_all)

lemma retry_loop_load_fails:
  "map get_text_text pgs = map Inr txts \<Longrightarrow>
   fst (retry_loop (map Inr pgs @ Inl e # rest) n a) = Some e"
proof (induction pgs arbitrary: txts n a)
  case Nil
  then show ?case by simp
next
  case (Cons pg pgs)
  from Cons.prems obtain t ts where txts: "txts = t # ts"
    and t: "get_text_text pg = Inr t"
    and ts: "map get_text_text pgs = map Inr ts"
    by (cases txts) auto
  show ?case
    by (simp add: t Cons.IH[OF ts] Let_def)
qed

lemma parse_pdf_retry_load_fails:
  assumes "is_pdf file" and "is_RuntimeError e"
    and "load_page doc = map Inr pgs @ Inl e' # rest"
    and "map get_text_text pgs = map Inr txts"
  shows "parse_pdf file (Inl e) (Inr doc) =
     Inl (HTTPException (if e' = FileDataError then 400 else 500))"
proof -
  let ?a0 = "\<lparr>pages_data = [], full_text = []\<rparr>"
  obtain r a where l: "retry_loop (load_page doc) 0 ?a0 = (r, a)"
    by (cases "retry_loop (load_page doc) 0 ?a0")
  with assms(3) retry_loop_load_fails[OF assms(4), of e' rest 0 ?a0] have "r = Some e'"
    by simp
  with l assms(1,2) show ?thesis
    by (simp add: parse_pdf_def retry_parse_def outer_handlers_def)
qed

lemma text_only_loop_load_fails:
  "map extract_page_text_rawdict pgs = map Inr txts \<Longrightarrow>
   text_only_loop (map Inr pgs @ Inl e # rest) ft = Inl e"
proof (induction pgs arbitrary: txts ft)
  case Nil
  then show ?case by simp
next
  case (Cons pg pgs)
  from Cons.prems obtain t ts where txts: "txts = t # ts"
    and t: "extract_page_text_rawdict pg = Inr t"
    and ts: "map extract_page_text_rawdict pgs = map Inr ts"
    by (cases txts) auto
  show ?case
    by (simp add: t Cons.IH[OF ts])
qed

lemma parse_pdf_text_only_retry_load_fails:
  assumes "is_pdf file" and "is_RuntimeError e"
    and "load_page doc = map Inr pgs @ Inl e' # rest"
    and "map extract_page_text_rawdict pgs = map Inr txts"
  shows "parse_pdf_text_only file (Inl e) (Inr doc) =
     Inl (HTTPException (if e' = FileDataError then 400 else 500))"
  using assms
  by (simp add: parse_pdf_text_only_def retry_text_only_def text_only_attempt_def
      text_only_loop_load_fails outer_handlers_def)

text \<open>
  Without a retry, and on a retry after a failed open, the page numbers are the positions
  in the list counted from one.
\<close>

lemma parse_pdf_first_pass_page_numbers:
  assumes "is_pdf file" and "\<not> needs_pass doc" and "load_page doc = map Inr pgs"
    and "map extract_page_text_rawdict pgs = map Inr txts"
    and "parse_pdf file (Inr doc) reopened = Inr resp" and "i < length (pages resp)"
  shows "page_number (pages resp ! i) = int i + 1"
proof -
  from parse_pdf_first_pass[OF assms(1-4), of reopened] assms(5)
  have "pages resp = numbered_pages 0 (map post_process_text txts)" by auto
  with assms(6) show ?thesis by (simp add: numbered_pages_def)
qed

lemma parse_pdf_retry_page_numbers:
  assumes "is_pdf file" and "is_RuntimeError e" and "load_page doc = map Inr pgs"
    and "map get_text_text pgs = map Inr txts"
    and "parse_pdf file (Inl e) (Inr doc) = Inr resp" and "i < length (pages resp)"
  shows "page_number (pages resp ! i) = int i + 1"
proof -
  from parse_pdf_retry[OF assms(1-4)] assms(5)
  have "pages resp = numbered_pages 0 (map (\<lambda>t. strip (remove_nulls t)) txts)" by auto
  with assms(6) show ?thesis by (simp add: numbered_pages_def)
qed

lemma extract_plain_page: "extract_page_text_rawdict (plain_page t) = Inr t"
  by (simp add: extract_page_text_rawdict_def extract_page_text_blocks_def plain_page_def
      collect_lines_def block_texts_def)

lemma extract_rich_page: "extract_page_text_rawdict rich_page = Inr ''Rich''"
  by (simp add: extract_page_text_rawdict_def rich_page_def collect_lines_def collect_line_def
      line_parts_def group_paragraphs_def para_step_def Let_def)

lemma is_pdf_upload: "is_pdf pdf_upload"
  by (simp add: is_pdf_def pdf_upload_def)

lemma numbered_pages_Nil: "numbered_pages n [] = []"
  by (simp add: numbered_pages_def)

lemma not_suffix_NL: "\<not> suffix [NL] (post_process_text s)"
proof
  assume "suffix [NL] (post_process_text s)"
  then obtain u where u: "post_process_text s = u @ [NL]" by (auto simp: suffix_def)
  then have "post_process_text s \<noteq> []" and "last (post_process_text s) = NL" by simp_all
  with post_process_text_ends[of s] is_space_NL show False by simp
qed

text \<open>
  Claim C1, as amended. Whenever \<open>parse_pdf\<close> returns a response, its full text is the
  normalizer applied to the concatenation, in the order of the returned pages, of each
  returned page text followed by one newline. When the first pass over the document
  completes, the returned pages are the pages of the document in their order, each with
  the normalized output of the extraction selector. When the first open raises a
  \<open>RuntimeError\<close> and the retry completes, the returned pages are the pages of the reopened
  document in their order, each with its plain text stripped of null characters and outer
  whitespace; the URL rule and the hyphen rule are not applied to the single page.
\<close>

theorem parse_pdf_full_text:
  "(parse_pdf file opened reopened = Inr resp \<longrightarrow>
      response_text resp
        = post_process_text (concat (map (\<lambda>p. page_text p @ [NL]) (pages resp))))
   \<and> (is_pdf file \<and> \<not> needs_pass doc \<and> load_page doc = map Inr pgs
        \<and> map extract_page_text_rawdict pgs = map Inr txts \<longrightarrow>
      parse_pdf file (Inr doc) reopened =
        Inr \<lparr>response_text =
               post_process_text (concat (map (\<lambda>t. post_process_text t @ [NL]) txts)),
             pages = numbered_pages 0 (map post_process_text txts),
             metadata = \<lparr>meta_page_count = int (length pgs), meta_filename = filename file,
                         meta_file_size = int (length (file_content file))\<rparr>\<rparr>)
   \<and> (is_pdf file \<and> is_RuntimeError e \<and> load_page doc = map Inr pgs
        \<and> map get_text_text pgs = map Inr txts \<longrightarrow>
      parse_pdf file (Inl e) (Inr doc) =
        Inr \<lparr>response_text =
               post_process_text (concat (map (\<lambda>t. strip (remove_nulls t) @ [NL]) txts)),
             pages = numbered_pages 0 (map (\<lambda>t. strip (remove_nulls t)) txts),
             metadata = \<lparr>meta_page_count = int (length pgs), meta_filename = filename file,
                         meta_file_size = int (length (file_content file))\<rparr>\<rparr>)"
proof -
  have "response_text resp
      = post_process_text (concat (map (\<lambda>p. page_text p @ [NL]) (pages resp)))"
    if "parse_pdf file opened reopened = Inr resp"
  proof -
    from that obtain a n where "acc_ok a" and "resp = make_response file a n"
      using parse_pdf_Inr by blast
    then show ?thesis by (simp add: make_response_def acc_ok_def)
  qed
  then show ?thesis
    using parse_pdf_first_pass[of "file" doc pgs txts reopened]
      parse_pdf_retry[of "file" e doc pgs txts]
    by blast
qed

theorem parse_pdf_full_text_witness:
  "is_pdf pdf_upload
   \<and> map extract_page_text_rawdict [plain_page '' one '', rich_page] = map Inr ['' one '', ''Rich'']
   \<and> parse_pdf pdf_upload
        (Inr \<lparr>needs_pass = False, load_page = map Inr [plain_page '' one '', rich_page]\<rparr>)
        (Inl RuntimeError)
      = Inr \<lparr>response_text = ''one\<newline>Rich'',
             pages = [\<lparr>page_number = 1, page_text = ''one''\<rparr>,
                      \<lparr>page_number = 2, page_text = ''Rich''\<rparr>],
             metadata = \<lparr>meta_page_count = 2, meta_filename = ''cv.pdf'',
                         meta_file_size = 8\<rparr>\<rparr>
   \<and> ''one\<newline>Rich''
      = post_process_text (concat (map (\<lambda>p. page_text p @ [NL])
          [\<lparr>page_number = 1, page_text = ''one''\<rparr>, \<lparr>page_number = 2, page_text = ''Rich''\<rparr>]))
   \<and> is_RuntimeError RuntimeError
   \<and> map get_text_text [plain_page '' one '', rich_page] = map Inr ['' one '', ''Plain'']
   \<and> parse_pdf pdf_upload (Inl RuntimeError)
        (Inr \<lparr>needs_pass = False, load_page = map Inr [plain_page '' one '', rich_page]\<rparr>)
      = Inr \<lparr>response_text = ''one\<newline>Plain'',
             pages = [\<lparr>page_number = 1, page_text = ''one''\<rparr>,
                      \<lparr>page_number = 2, page_text = ''Plain''\<rparr>],
             metadata = \<lparr>meta_page_count = 2, meta_filename = ''cv.pdf'',
                         meta_file_size = 8\<rparr>\<rparr>"
proof -
  let ?doc = "\<lparr>needs_pass = False, load_page = map Inr [plain_page '' one '', rich_page]\<rparr>"
  let ?resp = "\<lparr>response_text = ''one\<newline>Rich'',
             pages = [\<lparr>page_number = 1, page_text = ''one''\<rparr>,
                      \<lparr>page_number = 2, page_text = ''Rich''\<rparr>],
             metadata = \<lparr>meta_page_count = 2, meta_filename = ''cv.pdf'',
                         meta_file_size = 8\<rparr>\<rparr>"
  note rule = parse_pdf_full_text [of pdf_upload "Inr ?doc" "Inl RuntimeError" ?resp ?doc
      "[plain_page '' one '', rich_page]" "['' one '', ''Rich'']"]
  note rule' = parse_pdf_full_text [of pdf_upload "Inr ?doc" "Inl RuntimeError" ?resp ?doc
      "[plain_page '' one '', rich_page]" "['' one '', ''Plain'']" RuntimeError]
  have e: "map extract_page_text_rawdict [plain_page '' one '', rich_page]
      = map Inr ['' one '', ''Rich'']"
    by (simp add: extract_plain_page extract_rich_page)
  have g: "map get_text_text [plain_page '' one '', rich_page] = map Inr ['' one '', ''Plain'']"
    by (simp add: plain_page_def rich_page_def)
  have r: "is_RuntimeError RuntimeError" by simp
  have n: "post_process_text '' one '' = ''one''" "post_process_text ''Rich'' = ''Rich''"
    "post_process_text ''one\<newline>Rich\<newline>'' = ''one\<newline>Rich''"
    "strip (remove_nulls '' one '') = ''one''" "strip (remove_nulls ''Plain'') = ''Plain''"
    "post_process_text ''one\<newline>Plain\<newline>'' = ''one\<newline>Plain''"
    by (simp_all add: normalizer_eval)
  from rule is_pdf_upload e
  have "parse_pdf pdf_upload (Inr ?doc) (Inl RuntimeError) =
        Inr \<lparr>response_text =
               post_process_text (concat (map (\<lambda>t. post_process_text t @ [NL]) ['' one '', ''Rich''])),
             pages = numbered_pages 0 (map post_process_text ['' one '', ''Rich'']),
             metadata = \<lparr>meta_page_count = int (length [plain_page '' one '', rich_page]),
                         meta_filename = filename pdf_upload,
                         meta_file_size = int (length (file_content pdf_upload))\<rparr>\<rparr>"
    by simp
  then have p: "parse_pdf pdf_upload (Inr ?doc) (Inl RuntimeError) = Inr ?resp"
    by (simp add: n numbered_pages_Cons numbered_pages_Nil pdf_upload_def NL_def)
  with rule have "response_text ?resp
      = post_process_text (concat (map (\<lambda>p. page_text p @ [NL]) (pages ?resp)))"
    by blast
  then have t: "''one\<newline>Rich''
      = post_process_text (concat (map (\<lambda>p. page_text p @ [NL])
          [\<lparr>page_number = 1, page_text = ''one''\<rparr>, \<lparr>page_number = 2, page_text = ''Rich''\<rparr>]))"
    by simp
  from rule' is_pdf_upload r g
  have "parse_pdf pdf_upload (Inl RuntimeError) (Inr ?doc) =
        Inr \<lparr>response_text =
               post_process_text
                 (concat (map (\<lambda>t. strip (remove_nulls t) @ [NL]) ['' one '', ''Plain''])),
             pages = numbered_pages 0 (map (\<lambda>t. strip (remove_nulls t)) ['' one '', ''Plain'']),
             metadata = \<lparr>meta_page_count = int (length [plain_page '' one '', rich_page]),
                         meta_filename = filename pdf_upload,
                         meta_file_size = int (length (file_content pdf_upload))\<rparr>\<rparr>"
    by simp
  then have q: "parse_pdf pdf_upload (Inl RuntimeError) (Inr ?doc)
      = Inr \<lparr>response_text = ''one\<newline>Plain'',
             pages = [\<lparr>page_number = 1, page_text = ''one''\<rparr>,
                      \<lparr>page_number = 2, page_text = ''Plain''\<rparr>],
             metadata = \<lparr>meta_page_count = 2, meta_filename = ''cv.pdf'',
                         meta_file_size = 8\<rparr>\<rparr>"
    by (simp add: n numbered_pages_Cons numbered_pages_Nil pdf_upload_def NL_def)
  from is_pdf_upload e p t r g q show ?thesis by (simp only: simp_thms)
qed

text \<open>
  Claim C1, as stated, fails on the retry: the page text \<open>a-\<newline>b-\<newline>c\<close> is returned as
  it is and the full text is \<open>ab-\<newline>c\<close>, where the normalized page text \<open>ab-\<newline>c\<close>
  followed by a newline and normalized once more gives \<open>abc\<close>.
\<close>

theorem parse_pdf_retry_pages_not_normalized:
  "parse_pdf pdf_upload (Inl RuntimeError)
     (Inr \<lparr>needs_pass = False, load_page = [Inr (plain_page ''a-\<newline>b-\<newline>c'')]\<rparr>)
   = Inr \<lparr>response_text = ''ab-\<newline>c'',
          pages = [\<lparr>page_number = 1, page_text = ''a-\<newline>b-\<newline>c''\<rparr>],
          metadata = \<lparr>meta_page_count = 1, meta_filename = ''cv.pdf'', meta_file_size = 8\<rparr>\<rparr>
   \<and> extract_page_text_rawdict (plain_page ''a-\<newline>b-\<newline>c'') = Inr ''a-\<newline>b-\<newline>c''
   \<and> post_process_text ''a-\<newline>b-\<newline>c'' = ''ab-\<newline>c''
   \<and> post_process_text (post_process_text ''a-\<newline>b-\<newline>c'' @ [NL]) = ''abc''"
proof -
  have g: "get_text_text (plain_page ''a-\<newline>b-\<newline>c'') = Inr ''a-\<newline>b-\<newline>c''"
    by (simp add: plain_page_def)
  have n: "strip (remove_nulls ''a-\<newline>b-\<newline>c'') = ''a-\<newline>b-\<newline>c''"
    "post_process_text ''a-\<newline>b-\<newline>c\<newline>'' = ''ab-\<newline>c''"
    "post_process_text ''a-\<newline>b-\<newline>c'' = ''ab-\<newline>c''"
    "post_process_text ''ab-\<newline>c\<newline>'' = ''abc''"
    by (simp_all add: normalizer_eval)
  have 1: "parse_pdf pdf_upload (Inl RuntimeError)
     (Inr \<lparr>needs_pass = False, load_page = [Inr (plain_page ''a-\<newline>b-\<newline>c'')]\<rparr>)
   = Inr \<lparr>response_text = ''ab-\<newline>c'',
          pages = [\<lparr>page_number = 1, page_text = ''a-\<newline>b-\<newline>c''\<rparr>],
          metadata = \<lparr>meta_page_count = 1, meta_filename = ''cv.pdf'', meta_file_size = 8\<rparr>\<rparr>"
    by (simp add: parse_pdf_def is_pdf_upload g n Let_def retry_parse_def
        outer_handlers_def make_response_def)
      (simp add: pdf_upload_def n NL_def)
  have 2: "post_process_text (post_process_text ''a-\<newline>b-\<newline>c'' @ [NL]) = ''abc''"
    by (simp add: n) (simp add: n NL_def)
  from 1 2 n(3) show ?thesis by (simp only: extract_plain_page simp_thms)
qed

text \<open>
  Claim C2 fails on the retry after a first pass that had already collected pages. The
  first pass collects page 1 and \<open>load_page(1)\<close> raises \<open>RuntimeError\<close>; the handler reopens
  the document and appends both pages to the same \<open>pages_data\<close>, so the response lists the
  page numbers 1, 1, 2 for a document of two pages. \<open>parse_pdf_text_only\<close> starts its retry
  from an empty \<open>full_text\<close> and returns each page once.
\<close>

theorem parse_pdf_retry_repeats_pages:
  "parse_pdf pdf_upload
     (Inr \<lparr>needs_pass = False, load_page = [Inr (plain_page ''one''), Inl RuntimeError]\<rparr>)
     (Inr \<lparr>needs_pass = False,
           load_page = [Inr (plain_page ''one''), Inr (plain_page ''two'')]\<rparr>)
   = Inr \<lparr>response_text = ''one\<newline>one\<newline>two'',
          pages = [\<lparr>page_number = 1, page_text = ''one''\<rparr>,
                   \<lparr>page_number = 1, page_text = ''one''\<rparr>,
                   \<lparr>page_number = 2, page_text = ''two''\<rparr>],
          metadata = \<lparr>meta_page_count = 2, meta_filename = ''cv.pdf'', meta_file_size = 8\<rparr>\<rparr>
   \<and> parse_pdf_text_only pdf_upload
     (Inr \<lparr>needs_pass = False, load_page = [Inr (plain_page ''one''), Inl RuntimeError]\<rparr>)
     (Inr \<lparr>needs_pass = False,
           load_page = [Inr (plain_page ''one''), Inr (plain_page ''two'')]\<rparr>)
   = Inr \<lparr>only_text = ''one\<newline>two'', only_page_count = 2, only_filename = ''cv.pdf''\<rparr>"
proof -
  have g: "get_text_text (plain_page ''one'') = Inr ''one''"
    "get_text_text (plain_page ''two'') = Inr ''two''"
    by (simp_all add: plain_page_def)
  have n: "post_process_text ''one'' = ''one''" "strip (remove_nulls ''one'') = ''one''"
    "strip (remove_nulls ''two'') = ''two''"
    "post_process_text ''one\<newline>one\<newline>two\<newline>'' = ''one\<newline>one\<newline>two''"
    "post_process_text ''one\<newline>two\<newline>'' = ''one\<newline>two''"
    by (simp_all add: normalizer_eval)
  have 1: "parse_pdf pdf_upload
     (Inr \<lparr>needs_pass = False, load_page = [Inr (plain_page ''one''), Inl RuntimeError]\<rparr>)
     (Inr \<lparr>needs_pass = False,
           load_page = [Inr (plain_page ''one''), Inr (plain_page ''two'')]\<rparr>)
   = Inr \<lparr>response_text = ''one\<newline>one\<newline>two'',
          pages = [\<lparr>page_number = 1, page_text = ''one''\<rparr>,
                   \<lparr>page_number = 1, page_text = ''one''\<rparr>,
                   \<lparr>page_number = 2, page_text = ''two''\<rparr>],
          metadata = \<lparr>meta_page_count = 2, meta_filename = ''cv.pdf'', meta_file_size = 8\<rparr>\<rparr>"
    by (simp add: parse_pdf_def is_pdf_upload extract_plain_page g n Let_def retry_parse_def
        outer_handlers_def make_response_def)
      (simp add: pdf_upload_def n NL_def)
  have 2: "parse_pdf_text_only pdf_upload
     (Inr \<lparr>needs_pass = False, load_page = [Inr (plain_page ''one''), Inl RuntimeError]\<rparr>)
     (Inr \<lparr>needs_pass = False,
           load_page = [Inr (plain_page ''one''), Inr (plain_page ''two'')]\<rparr>)
   = Inr \<lparr>only_text = ''one\<newline>two'', only_page_count = 2, only_filename = ''cv.pdf''\<rparr>"
    by (simp add: parse_pdf_text_only_def is_pdf_upload extract_plain_page
        text_only_attempt_def retry_text_only_def outer_handlers_def)
      (simp add: pdf_upload_def n NL_def)
  from 1 2 show ?thesis by (simp only: simp_thms)
qed

text \<open>
  Claim C8, as amended. When the first \<open>fitz.open\<close> raises a \<open>RuntimeError\<close>, each parse
  operation opens the document once more and never a third time: if the second open
  raises, or a page of the reopened document cannot be loaded, the request of either
  operation fails with that error. On the retry \<open>parse_pdf\<close> takes for every page
  the plain text alone, stripped of null characters and outer whitespace, whatever the
  positioned spans and the blocks hold. \<open>parse_pdf_text_only\<close> runs the full extraction
  selector on every page of the retry, as in its first attempt.
\<close>

theorem retry_after_failed_open:
  assumes "is_pdf file" and "is_RuntimeError e"
  shows "parse_pdf file (Inl e) (Inl e') =
           Inl (HTTPException (if e' = FileDataError then 400 else 500))
   \<and> parse_pdf_text_only file (Inl e) (Inl e') =
           Inl (HTTPException (if e' = FileDataError then 400 else 500))
   \<and> (load_page doc = map Inr pgs \<and> map get_text_text pgs = map Inr txts \<longrightarrow>
        parse_pdf file (Inl e) (Inr doc) =
          Inr \<lparr>response_text =
                 post_process_text (concat (map (\<lambda>t. strip (remove_nulls t) @ [NL]) txts)),
               pages = numbered_pages 0 (map (\<lambda>t. strip (remove_nulls t)) txts),
               metadata = \<lparr>meta_page_count = int (length pgs), meta_filename = filename file,
                           meta_file_size = int (length (file_content file))\<rparr>\<rparr>)
   \<and> (load_page doc = map Inr pgs \<and> map extract_page_text_rawdict pgs = map Inr txts' \<longrightarrow>
        parse_pdf_text_only file (Inl e) (Inr doc) =
          Inr \<lparr>only_text = post_process_text (concat (map (\<lambda>t. t @ [NL]) txts')),
               only_page_count = int (length pgs), only_filename = filename file\<rparr>)
   \<and> (load_page doc = map Inr pgs @ Inl e' # rest \<and> map get_text_text pgs = map Inr txts \<longrightarrow>
        parse_pdf file (Inl e) (Inr doc) =
          Inl (HTTPException (if e' = FileDataError then 400 else 500)))
   \<and> (load_page doc = map Inr pgs @ Inl e' # rest
        \<and> map extract_page_text_rawdict pgs = map Inr txts' \<longrightarrow>
        parse_pdf_text_only file (Inl e) (Inr doc) =
          Inl (HTTPException (if e' = FileDataError then 400 else 500)))"
proof -
  from assms have 1: "parse_pdf file (Inl e) (Inl e') =
           Inl (HTTPException (if e' = FileDataError then 400 else 500))"
    by (simp add: parse_pdf_def retry_parse_def outer_handlers_def)
  from assms have 2: "parse_pdf_text_only file (Inl e) (Inl e') =
           Inl (HTTPException (if e' = FileDataError then 400 else 500))"
    by (simp add: parse_pdf_text_only_def retry_text_only_def outer_handlers_def)
  from 1 2 show ?thesis
    using parse_pdf_retry[OF assms, of doc pgs txts]
      parse_pdf_text_only_retry[OF assms, of doc pgs txts']
      parse_pdf_retry_load_fails[OF assms, of doc pgs e' rest txts]
      parse_pdf_text_only_retry_load_fails[OF assms, of doc pgs e' rest txts']
    by blast
qed

theorem retry_after_failed_open_witness:
  "is_pdf pdf_upload \<and> is_RuntimeError RuntimeError
   \<and> parse_pdf pdf_upload (Inl RuntimeError) (Inl FileDataError) = Inl (HTTPException 400)
   \<and> parse_pdf_text_only pdf_upload (Inl RuntimeError) (Inl FileDataError)
       = Inl (HTTPException 400)
   \<and> map get_text_text [rich_page] = map Inr [''Plain'']
   \<and> parse_pdf pdf_upload (Inl RuntimeError)
        (Inr \<lparr>needs_pass = False, load_page = map Inr [rich_page]\<rparr>)
      = Inr \<lparr>response_text = ''Plain'',
             pages = [\<lparr>page_number = 1, page_text = ''Plain''\<rparr>],
             metadata = \<lparr>meta_page_count = 1, meta_filename = ''cv.pdf'',
                         meta_file_size = 8\<rparr>\<rparr>
   \<and> map extract_page_text_rawdict [rich_page] = map Inr [''Rich'']
   \<and> parse_pdf_text_only pdf_upload (Inl RuntimeError)
        (Inr \<lparr>needs_pass = False, load_page = map Inr [rich_page]\<rparr>)
      = Inr \<lparr>only_text = ''Rich'', only_page_count = 1, only_filename = ''cv.pdf''\<rparr>
   \<and> parse_pdf pdf_upload (Inl RuntimeError)
        (Inr \<lparr>needs_pass = False, load_page = map Inr [rich_page] @ Inl FileDataError # []\<rparr>)
      = Inl (HTTPException 400)
   \<and> parse_pdf_text_only pdf_upload (Inl RuntimeError)
        (Inr \<lparr>needs_pass = False, load_page = map Inr [rich_page] @ Inl FileDataError # []\<rparr>)
      = Inl (HTTPException 400)"
proof -
  let ?doc = "\<lparr>needs_pass = False, load_page = map Inr [rich_page]\<rparr>"
  have r: "is_RuntimeError RuntimeError" by simp
  note rule = retry_after_failed_open [OF is_pdf_upload r, of FileDataError ?doc "[rich_page]"
      "[''Plain'']" "[''Rich'']"]
  have g: "map get_text_text [rich_page] = map Inr [''Plain'']"
    by (simp add: rich_page_def)
  have x: "map extract_page_text_rawdict [rich_page] = map Inr [''Rich'']"
    by (simp add: extract_rich_page)
  have n: "strip (remove_nulls ''Plain'') = ''Plain''"
    "post_process_text ''Plain\<newline>'' = ''Plain''"
    "post_process_text ''Rich\<newline>'' = ''Rich''"
    by (simp_all add: normalizer_eval)
  from rule have 1: "parse_pdf pdf_upload (Inl RuntimeError) (Inl FileDataError)
      = Inl (HTTPException 400)"
    and 2: "parse_pdf_text_only pdf_upload (Inl RuntimeError) (Inl FileDataError)
      = Inl (HTTPException 400)"
    by simp_all
  from rule g have "parse_pdf pdf_upload (Inl RuntimeError) (Inr ?doc) =
          Inr \<lparr>response_text =
                 post_process_text (concat (map (\<lambda>t. strip (remove_nulls t) @ [NL]) [''Plain''])),
               pages = numbered_pages 0 (map (\<lambda>t. strip (remove_nulls t)) [''Plain'']),
               metadata = \<lparr>meta_page_count = int (length [rich_page]),
                           meta_filename = filename pdf_upload,
                           meta_file_size = int (length (file_content pdf_upload))\<rparr>\<rparr>"
    by simp
  then have 3: "parse_pdf pdf_upload (Inl RuntimeError) (Inr ?doc)
      = Inr \<lparr>response_text = ''Plain'',
             pages = [\<lparr>page_number = 1, page_text = ''Plain''\<rparr>],
             metadata = \<lparr>meta_page_count = 1, meta_filename = ''cv.pdf'',
                         meta_file_size = 8\<rparr>\<rparr>"
    by (simp add: n numbered_pages_Cons numbered_pages_Nil pdf_upload_def NL_def)
  from rule x have "parse_pdf_text_only pdf_upload (Inl RuntimeError) (Inr ?doc) =
          Inr \<lparr>only_text = post_process_text (concat (map (\<lambda>t. t @ [NL]) [''Rich''])),
               only_page_count = int (length [rich_page]),
               only_filename = filename pdf_upload\<rparr>"
    by simp
  then have 4: "parse_pdf_text_only pdf_upload (Inl RuntimeError) (Inr ?doc)
      = Inr \<lparr>only_text = ''Rich'', only_page_count = 1, only_filename = ''cv.pdf''\<rparr>"
    by (simp add: n pdf_upload_def NL_def)
  have "load_page \<lparr>needs_pass = False,
        load_page = map Inr [rich_page] @ Inl FileDataError # []\<rparr>
      = map Inr [rich_page] @ Inl FileDataError # []"
    by simp
  note l = this
  note rule2 = retry_after_failed_open [OF is_pdf_upload r, of FileDataError
        "\<lparr>needs_pass = False, load_page = map Inr [rich_page] @ Inl FileDataError # []\<rparr>"
        "[rich_page]" "[''Plain'']" "[''Rich'']" "[]"]
  from l g have 5: "parse_pdf pdf_upload (Inl RuntimeError)
        (Inr \<lparr>needs_pass = False, load_page = map Inr [rich_page] @ Inl FileDataError # []\<rparr>)
      = Inl (HTTPException 400)"
    using rule2 by simp
  from l x have 6: "parse_pdf_text_only pdf_upload (Inl RuntimeError)
        (Inr \<lparr>needs_pass = False, load_page = map Inr [rich_page] @ Inl FileDataError # []\<rparr>)
      = Inl (HTTPException 400)"
    using rule2 by simp
  from is_pdf_upload r 1 2 g 3 x 4 5 6 show ?thesis by (simp only: simp_thms)
qed

text \<open>
  Claim C8, as stated, fails for \<open>parse_pdf_text_only\<close>: on the retry it returns the text of
  the positioned spans of the page, not its plain text.
\<close>

theorem text_only_retry_uses_selector:
  "parse_pdf_text_only pdf_upload (Inl RuntimeError)
     (Inr \<lparr>needs_pass = False, load_page = [Inr rich_page]\<rparr>)
   = Inr \<lparr>only_text = ''Rich'', only_page_count = 1, only_filename = ''cv.pdf''\<rparr>
   \<and> get_text_text rich_page = Inr ''Plain''
   \<and> post_process_text ''Plain\<newline>'' = ''Plain''"
proof -
  have p: "get_text_text rich_page = Inr ''Plain''" by (simp add: rich_page_def)
  have n: "post_process_text ''Rich\<newline>'' = ''Rich''"
    "post_process_text ''Plain\<newline>'' = ''Plain''"
    by (simp_all add: normalizer_eval)
  have "parse_pdf_text_only pdf_upload (Inl RuntimeError)
     (Inr \<lparr>needs_pass = False, load_page = [Inr rich_page]\<rparr>)
   = Inr \<lparr>only_text = ''Rich'', only_page_count = 1, only_filename = ''cv.pdf''\<rparr>"
    by (simp add: parse_pdf_text_only_def is_pdf_upload retry_text_only_def
        text_only_attempt_def extract_rich_page outer_handlers_def)
      (simp add: pdf_upload_def n NL_def)
  with p n show ?thesis by (simp only: simp_thms)
qed

text \<open>
  Claim C10. The output of the normalizer is empty or neither starts nor ends with a
  whitespace character. So the full text that \<open>parse_pdf\<close> and \<open>parse_pdf_text_only\<close> return
  never ends with the newline that was appended after the last page.
\<close>

theorem no_outer_whitespace:
  "(post_process_text s = [] \<or>
      (\<not> is_space (hd (post_process_text s)) \<and> \<not> is_space (last (post_process_text s))))
   \<and> (parse_pdf file opened reopened = Inr resp \<longrightarrow> \<not> suffix [NL] (response_text resp))
   \<and> (parse_pdf_text_only file opened reopened = Inr resp' \<longrightarrow>
        \<not> suffix [NL] (only_text resp'))"
proof -
  have 1: "\<not> suffix [NL] (response_text resp)" if "parse_pdf file opened reopened = Inr resp"
  proof -
    from that obtain a n where "resp = make_response file a n"
      using parse_pdf_Inr by blast
    then show ?thesis by (simp add: make_response_def not_suffix_NL)
  qed
  have 2: "\<not> suffix [NL] (only_text resp')"
    if "parse_pdf_text_only file opened reopened = Inr resp'"
  proof -
    from that obtain ft where "only_text resp' = post_process_text ft"
      using parse_pdf_text_only_Inr by blast
    then show ?thesis by (simp add: not_suffix_NL)
  qed
  from 1 2 show ?thesis using post_process_text_ends[of s] by blast
qed

theorem no_outer_whitespace_witness:
  "post_process_text '' one '' = ''one''
   \<and> \<not> is_space (hd ''one'') \<and> \<not> is_space (last ''one'')
   \<and> parse_pdf pdf_upload (Inl RuntimeError)
        (Inr \<lparr>needs_pass = False, load_page = [Inr rich_page]\<rparr>)
      = Inr \<lparr>response_text = ''Plain'',
             pages = [\<lparr>page_number = 1, page_text = ''Plain''\<rparr>],
             metadata = \<lparr>meta_page_count = 1, meta_filename = ''cv.pdf'',
                         meta_file_size = 8\<rparr>\<rparr>
   \<and> \<not> suffix [NL] ''Plain''
   \<and> parse_pdf_text_only pdf_upload (Inl RuntimeError)
        (Inr \<lparr>needs_pass = False, load_page = [Inr rich_page]\<rparr>)
      = Inr \<lparr>only_text = ''Rich'', only_page_count = 1, only_filename = ''cv.pdf''\<rparr>
   \<and> \<not> suffix [NL] ''Rich''"
proof -
  let ?doc = "\<lparr>needs_pass = False, load_page = [Inr rich_page]\<rparr>"
  let ?resp = "\<lparr>response_text = ''Plain'',
             pages = [\<lparr>page_number = 1, page_text = ''Plain''\<rparr>],
             metadata = \<lparr>meta_page_count = 1, meta_filename = ''cv.pdf'',
                         meta_file_size = 8\<rparr>\<rparr>"
  let ?only = "\<lparr>only_text = ''Rich'', only_page_count = 1, only_filename = ''cv.pdf''\<rparr>"
  note rule = no_outer_whitespace [of "'' one ''" pdf_upload "Inl RuntimeError" "Inr ?doc"
      ?resp ?only]
  have n: "post_process_text '' one '' = ''one''"
    "strip (remove_nulls ''Plain'') = ''Plain''"
    "post_process_text ''Plain\<newline>'' = ''Plain''"
    "post_process_text ''Rich\<newline>'' = ''Rich''"
    by (simp_all add: normalizer_eval)
  have g: "get_text_text rich_page = Inr ''Plain''" by (simp add: rich_page_def)
  have p: "parse_pdf pdf_upload (Inl RuntimeError) (Inr ?doc) = Inr ?resp"
    by (simp add: parse_pdf_def is_pdf_upload g n Let_def retry_parse_def
        outer_handlers_def make_response_def)
      (simp add: pdf_upload_def n NL_def)
  have q: "parse_pdf_text_only pdf_upload (Inl RuntimeError) (Inr ?doc) = Inr ?only"
    by (simp add: parse_pdf_text_only_def is_pdf_upload retry_text_only_def
        text_only_attempt_def extract_rich_page outer_handlers_def)
      (simp add: pdf_upload_def n NL_def)
  from rule n have 1: "\<not> is_space (hd ''one'') \<and> \<not> is_space (last ''one'')"
    by simp
  from rule p have 2: "\<not> suffix [NL] ''Plain''" by simp
  from rule q have 3: "\<not> suffix [NL] ''Rich''" by simp
  from n(1) 1 p 2 q 3 show ?thesis by (simp only: simp_thms)
qed

section \<open>Properties of the page text extraction\<close>

lemma blocks_fallback:
  "(get_text_blocks pg = Inl e \<or> (get_text_blocks pg = Inr bl \<and> join [NL] (block_texts bl) = []))
   \<Longrightarrow> extract_page_text_blocks pg = get_text_text pg"
  by (auto simp: extract_page_text_blocks_def)

lemma rawdict_fallback:
  "(get_text_rawdict pg = Inl e \<or> (get_text_rawdict pg = Inr bs \<and> collect_lines bs = []))
   \<Longrightarrow> extract_page_text_rawdict pg = extract_page_text_blocks pg"
  by (auto simp: extract_page_text_rawdict_def)

lemma blocks_cases:
  "extract_page_text_blocks pg = get_text_text pg \<or> (\<exists>s. extract_page_text_blocks pg = Inr s)"
  by (auto simp: extract_page_text_blocks_def Let_def split: sum.splits)

lemma rawdict_cases:
  "extract_page_text_rawdict pg = extract_page_text_blocks pg \<or> (\<exists>s. extract_page_text_rawdict pg = Inr s)"
  by (auto simp: extract_page_text_rawdict_def Let_def split: sum.splits)

lemma join_snoc: "xs \<noteq> [] \<Longrightarrow> join sep (xs @ [x]) = join sep xs @ sep @ x"
  by (induction sep xs rule: join.induct) auto

lemma para_step_prev:
  "prev_y1 (para_step st (y0, y1, x0, tx)) = Some y1
   \<and> prev_x0 (para_step st (y0, y1, x0, tx)) = Some x0
   \<and> current (para_step st (y0, y1, x0, tx)) \<noteq> []"
  by (simp add: para_step_def Let_def split: option.splits)

lemma para_step_next:
  assumes "prev_y1 st = Some py1" and "prev_x0 st = Some px0"
  shows "para_step st (y0, y1, x0, tx) =
     (if 7 < float_sub y0 py1 \<or> (18 < \<bar>float_sub x0 px0\<bar> \<and> 2 < float_sub y0 py1)
      then st\<lparr>paragraphs := paragraphs st @ [join [NL] (current st)],
               current := [tx], prev_y1 := Some y1, prev_x0 := Some x0\<rparr>
      else st\<lparr>current := current st @ [tx], prev_y1 := Some y1, prev_x0 := Some x0\<rparr>)"
  using assms by (simp add: para_step_def Let_def)

lemma group_paragraphs_single: "group_paragraphs [(y0, y1, x0, tx)] = [tx]"
  by (simp add: group_paragraphs_def para_step_def)

lemma group_paragraphs_snoc:
  "group_paragraphs (ls @ [(py0, py1, px0, ptx), (y0, y1, x0, tx)]) =
     (let before = group_paragraphs (ls @ [(py0, py1, px0, ptx)])
      in if 7 < float_sub y0 py1 \<or> (18 < \<bar>float_sub x0 px0\<bar> \<and> 2 < float_sub y0 py1)
         then before @ [tx]
         else butlast before @ [last before @ [NL] @ tx])"
proof -
  let ?init = "\<lparr>paragraphs = [], current = [], prev_y1 = None, prev_x0 = None\<rparr>"
  let ?st = "foldl para_step ?init (ls @ [(py0, py1, px0, ptx)])"
  have st: "?st = para_step (foldl para_step ?init ls) (py0, py1, px0, ptx)" by simp
  have y: "prev_y1 ?st = Some py1" and x: "prev_x0 ?st = Some px0" and c: "current ?st \<noteq> []"
    unfolding st using para_step_prev by blast+
  from c have before: "group_paragraphs (ls @ [(py0, py1, px0, ptx)])
      = paragraphs ?st @ [join [NL] (current ?st)]"
    by (simp add: group_paragraphs_def Let_def)
  have "foldl para_step ?init (ls @ [(py0, py1, px0, ptx), (y0, y1, x0, tx)])
      = para_step ?st (y0, y1, x0, tx)"
    by simp
  then have after: "group_paragraphs (ls @ [(py0, py1, px0, ptx), (y0, y1, x0, tx)])
      = (let s = para_step ?st (y0, y1, x0, tx)
         in if current s \<noteq> [] then paragraphs s @ [join [NL] (current s)] else paragraphs s)"
    by (simp only: group_paragraphs_def)
  show ?thesis
    unfolding after before para_step_next[OF y x]
    using c by (simp add: Let_def join_snoc)
qed

lemma concat_nonempty_parts: "concat (filter (\<lambda>t. t \<noteq> []) xs) = concat xs"
  by (induction xs) auto

lemma nonempty_parts_Nil: "filter (\<lambda>t. t \<noteq> []) xs = [] \<longleftrightarrow> concat xs = []"
  by (induction xs) auto


text \<open>
  Claim C3, as amended. When the request for positioned spans raises or no line is
  collected from them, the selector returns what \<open>_extract_page_text_blocks\<close> returns on
  the page. When, in addition, the request for blocks raises or the joined block texts
  are empty, the selector returns the outcome of the plain-text request as it is: the
  text is not normalized by the selector, its callers do that.
\<close>

theorem selector_fallback:
  "((get_text_rawdict pg = Inl e \<or> (get_text_rawdict pg = Inr bs \<and> collect_lines bs = []))
      \<longrightarrow> extract_page_text_rawdict pg = extract_page_text_blocks pg)
   \<and> ((get_text_rawdict pg = Inl e \<or> (get_text_rawdict pg = Inr bs \<and> collect_lines bs = []))
        \<and> (get_text_blocks pg = Inl e'
             \<or> (get_text_blocks pg = Inr bl \<and> join [NL] (block_texts bl) = []))
      \<longrightarrow> extract_page_text_rawdict pg = get_text_text pg)"
  using rawdict_fallback[of pg e bs] blocks_fallback[of pg e' bl] by auto

theorem selector_fallback_witness:
  "get_text_rawdict (plain_page '' x '') = Inr [] \<and> collect_lines [] = []
   \<and> get_text_blocks (plain_page '' x '') = Inr [] \<and> join [NL] (block_texts []) = []
   \<and> extract_page_text_rawdict (plain_page '' x '')
       = extract_page_text_blocks (plain_page '' x '')
   \<and> extract_page_text_rawdict (plain_page '' x '') = get_text_text (plain_page '' x '')
   \<and> get_text_text (plain_page '' x '') = Inr '' x ''"
proof -
  note rule = selector_fallback [of "plain_page '' x ''" RuntimeError "[]" RuntimeError "[]"]
  have a: "get_text_rawdict (plain_page '' x '') = Inr []"
    and b: "get_text_blocks (plain_page '' x '') = Inr []"
    and c: "get_text_text (plain_page '' x '') = Inr '' x ''"
    by (simp_all add: plain_page_def)
  have d: "collect_lines [] = []" by (simp add: collect_lines_def)
  have f: "join [NL] (block_texts []) = []" by (simp add: block_texts_def)
  from rule a d have 1: "extract_page_text_rawdict (plain_page '' x '')
       = extract_page_text_blocks (plain_page '' x '')"
    by blast
  from rule a b d f have 2: "extract_page_text_rawdict (plain_page '' x '')
       = get_text_text (plain_page '' x '')"
    by blast
  from a b c d f 1 2 show ?thesis by (simp only: simp_thms)
qed

text \<open>
  Claim C3, as stated, fails in its last part: on a page without spans and without blocks
  the selector returns the plain text with its outer blanks, not the normalized text.
\<close>

theorem selector_returns_plain_text_unnormalized:
  "get_text_rawdict (plain_page '' x '') = Inr [] \<and> collect_lines [] = []
   \<and> get_text_blocks (plain_page '' x '') = Inr [] \<and> join [NL] (block_texts []) = []
   \<and> get_text_text (plain_page '' x '') = Inr '' x ''
   \<and> extract_page_text_rawdict (plain_page '' x '') = Inr '' x ''
   \<and> post_process_text '' x '' = ''x''
   \<and> extract_page_text_rawdict (plain_page '' x '') \<noteq> Inr (post_process_text '' x '')"
proof -
  have n: "post_process_text '' x '' = ''x''" by (simp add: normalizer_eval)
  show ?thesis
    by (simp add: extract_plain_page n) (simp add: plain_page_def collect_lines_def block_texts_def)
qed

text \<open>
  Claim C9, as amended. Every failure of the requests for positioned spans and for blocks
  is absorbed by falling back: the selector returns a string whenever the plain-text
  request returns one. The plain-text request is not guarded: the only error that the
  selector passes to its caller is the error of that request.
\<close>

theorem selector_errors:
  "(get_text_text pg = Inr t \<longrightarrow>
      (\<exists>s. extract_page_text_blocks pg = Inr s) \<and> (\<exists>s. extract_page_text_rawdict pg = Inr s))
   \<and> (extract_page_text_blocks pg = Inl e \<longrightarrow> get_text_text pg = Inl e)
   \<and> (extract_page_text_rawdict pg = Inl e \<longrightarrow> get_text_text pg = Inl e)"
  using blocks_cases[of pg] rawdict_cases[of pg] by auto

theorem selector_errors_witness:
  "get_text_text degraded_page = Inr ''Plain''
   \<and> (\<exists>s. extract_page_text_blocks degraded_page = Inr s)
   \<and> (\<exists>s. extract_page_text_rawdict degraded_page = Inr s)
   \<and> extract_page_text_blocks failing_page = Inl RuntimeError
   \<and> extract_page_text_rawdict failing_page = Inl RuntimeError
   \<and> get_text_text failing_page = Inl RuntimeError"
proof -
  have a: "get_text_text degraded_page = Inr ''Plain''" by (simp add: degraded_page_def)
  have b: "extract_page_text_blocks failing_page = Inl RuntimeError"
    by (simp add: extract_page_text_blocks_def failing_page_def)
  have c: "extract_page_text_rawdict failing_page = Inl RuntimeError"
    by (simp add: extract_page_text_rawdict_def extract_page_text_blocks_def failing_page_def)
  from a have 1: "(\<exists>s. extract_page_text_blocks degraded_page = Inr s)
      \<and> (\<exists>s. extract_page_text_rawdict degraded_page = Inr s)"
    using selector_errors [of degraded_page "''Plain''" RuntimeError] by blast
  from c have 2: "get_text_text failing_page = Inl RuntimeError"
    using selector_errors [of failing_page "''Plain''" RuntimeError] by blast
  from a 1 b c 2 show ?thesis by (simp only: simp_thms)
qed

text \<open>
  Claim C9, as stated, fails: on a page where all three requests raise, the selector
  raises the error of the plain-text request.
\<close>

theorem selector_raises:
  "get_text_rawdict failing_page = Inl RuntimeError
   \<and> get_text_blocks failing_page = Inl RuntimeError
   \<and> get_text_text failing_page = Inl RuntimeError
   \<and> extract_page_text_rawdict failing_page = Inl RuntimeError"
  by (simp add: extract_page_text_rawdict_def extract_page_text_blocks_def failing_page_def)

lemma binade_numeral:
  "binade (numeral k) e a =
     (if a < pow2 e \<and> - 1022 < e then binade (pred_numeral k) (e - 1) a
      else if pow2 (e + 1) \<le> a \<and> e < 1023 then binade (pred_numeral k) (e + 1) a
      else e)"
  by (simp add: numeral_eq_Suc)

lemmas float_eval =
  float_sub_def double_round_def binade_numeral pow2_def round_half_even_def Let_def

text \<open>
  The floats nearest to 7.7 and to 0.7 differ by a little more than 7; their float
  difference is 7, and the two lines stay in one paragraph.
\<close>

lemma float_sub_rounds:
  "(7::real) < 8669429282688205 / 1125899906842624 - 3152519739159347 / 4503599627370496
   \<and> float_sub (8669429282688205 / 1125899906842624) (3152519739159347 / 4503599627370496) = 7"
  by (simp add: float_eval)

lemma group_paragraphs_rounded_gap:
  "group_paragraphs
     [(0, 3152519739159347 / 4503599627370496, 72, ''first''),
      (8669429282688205 / 1125899906842624, 9, 72, ''second'')]
   = [''first\<newline>second'']"
proof -
  have g: "float_sub (8669429282688205 / 1125899906842624)
      (3152519739159347 / 4503599627370496) = 7"
    by (simp add: float_eval)
  have x: "float_sub 72 72 = 0" by (simp add: float_sub_def double_round_def)
  show ?thesis
    using group_paragraphs_snoc [of "[]" 0 "3152519739159347 / 4503599627370496" 72 "''first''"
        "8669429282688205 / 1125899906842624" 9 72 "''second''"]
    by (simp add: g x group_paragraphs_single NL_def)
qed

text \<open>
  Claim C5. A coordinate is the real value of a float and \<open>float_sub\<close> is the subtraction of
  floats, so \<open>vgap\<close> and \<open>xdelta\<close> are the numbers that the program computes. An empty list
  gives no paragraph and the first line opens the first paragraph. Every later line
  \<open>(y0, y1, x0, text)\<close>, coming after a line with bottom \<open>py1\<close> and left edge \<open>px0\<close>, opens a
  new paragraph exactly when \<open>vgap > 7\<close>, or \<open>xdelta > 18\<close> and \<open>vgap > 2\<close>, where \<open>vgap\<close> is
  \<open>float_sub y0 py1\<close> and \<open>xdelta\<close> is \<open>|float_sub x0 px0|\<close>; otherwise its text is appended to
  the last paragraph after a newline. Two lines with \<open>vgap = 8\<close> give two paragraphs; two
  lines with \<open>vgap = 5\<close> and \<open>xdelta = 0\<close> give one.
\<close>

theorem paragraph_segmenter:
  "group_paragraphs [] = []
   \<and> group_paragraphs [(y0, y1, x0, tx)] = [tx]
   \<and> group_paragraphs (ls @ [(py0, py1, px0, ptx), (y0, y1, x0, tx)]) =
       (let before = group_paragraphs (ls @ [(py0, py1, px0, ptx)])
        in if 7 < float_sub y0 py1 \<or> (18 < \<bar>float_sub x0 px0\<bar> \<and> 2 < float_sub y0 py1)
           then before @ [tx]
           else butlast before @ [last before @ [NL] @ tx])
   \<and> (float_sub y0 py1 = 8 \<longrightarrow>
        group_paragraphs [(py0, py1, px0, ptx), (y0, y1, x0, tx)] = [ptx, tx])
   \<and> (float_sub y0 py1 = 5 \<and> \<bar>float_sub x0 px0\<bar> = 0 \<longrightarrow>
        group_paragraphs [(py0, py1, px0, ptx), (y0, y1, x0, tx)] = [ptx @ [NL] @ tx])"
proof -
  have 1: "group_paragraphs [] = []" by (simp add: group_paragraphs_def)
  have 2: "group_paragraphs [(y0, y1, x0, tx)] = [tx]" by (rule group_paragraphs_single)
  note 3 = group_paragraphs_snoc [of ls py0 py1 px0 ptx y0 y1 x0 tx]
  note two = group_paragraphs_snoc [of "[]" py0 py1 px0 ptx y0 y1 x0 tx]
  have 4: "group_paragraphs [(py0, py1, px0, ptx), (y0, y1, x0, tx)] = [ptx, tx]"
    if "float_sub y0 py1 = 8"
    using two that by (simp add: group_paragraphs_single)
  have 5: "group_paragraphs [(py0, py1, px0, ptx), (y0, y1, x0, tx)] = [ptx @ [NL] @ tx]"
    if "float_sub y0 py1 = 5 \<and> \<bar>float_sub x0 px0\<bar> = 0"
    using two that by (simp add: group_paragraphs_single)
  from 1 2 3 4 5 show ?thesis by blast
qed

theorem paragraph_segmenter_witness:
  "float_sub 18 10 = 8
   \<and> group_paragraphs [(0, 10, 72, ''first''), (18, 28, 72, ''second'')]
       = [''first'', ''second'']
   \<and> float_sub 15 10 = 5 \<and> \<bar>float_sub 72 72\<bar> = 0
   \<and> group_paragraphs [(0, 10, 72, ''first''), (15, 25, 72, ''second'')]
       = [''first\<newline>second'']"
proof -
  have a: "float_sub 18 10 = 8" and b: "float_sub 15 10 = 5"
    by (simp_all add: float_eval)
  have c: "\<bar>float_sub 72 72\<bar> = 0" by (simp add: float_sub_def double_round_def)
  from a have 1: "group_paragraphs [(0, 10, 72, ''first''), (18, 28, 72, ''second'')]
       = [''first'', ''second'']"
    using paragraph_segmenter [of 18 28 72 "''second''" "[]" 0 10 72 "''first''"] by blast
  from b c have "group_paragraphs [(0, 10, 72, ''first''), (15, 25, 72, ''second'')]
       = [''first'' @ [NL] @ ''second'']"
    using paragraph_segmenter [of 15 25 72 "''second''" "[]" 0 10 72 "''first''"] by blast
  then have 2: "group_paragraphs [(0, 10, 72, ''first''), (15, 25, 72, ''second'')]
       = [''first\<newline>second'']"
    by (simp add: NL_def)
  from a 1 b c 2 show ?thesis by (simp only: simp_thms)
qed

text \<open>
  Claim C7. The text of a line is the concatenation, without separator, of the texts of
  its spans in the order of a stable ascending sort by \<open>origin[0]\<close>: the sorted list is
  ascending in the origin, is a permutation of the spans, and keeps spans of equal origin
  in their given order. A line whose text is empty is left out. The spans \<open>World\<close> at 50
  and \<open>Hello\<close> with a trailing blank at 0 give the line \<open>Hello World\<close>.
\<close>

theorem line_assembler:
  "sorted (map (\<lambda>sp. fst (origin sp)) (sort_key (\<lambda>sp. fst (origin sp)) sps))
   \<and> mset (sort_key (\<lambda>sp. fst (origin sp)) sps) = mset sps
   \<and> (\<forall>k. filter (\<lambda>sp. fst (origin sp) = k) (sort_key (\<lambda>sp. fst (origin sp)) sps)
          = filter (\<lambda>sp. fst (origin sp) = k) sps)
   \<and> concat (line_parts sps) = concat (map span_text (sort_key (\<lambda>sp. fst (origin sp)) sps))
   \<and> collect_line \<lparr>line_bbox = (x0, y0, x1, y1), line_spans = sps\<rparr>
       = (if concat (map span_text (sort_key (\<lambda>sp. fst (origin sp)) sps)) = [] then []
          else [(y0, y1, x0, concat (map span_text (sort_key (\<lambda>sp. fst (origin sp)) sps)))])
   \<and> collect_line \<lparr>line_bbox = (0, 0, 100, 12),
         line_spans = [\<lparr>span_text = ''World'', origin = (50, 10)\<rparr>,
                       \<lparr>span_text = ''Hello '', origin = (0, 10)\<rparr>]\<rparr>
       = [(0, 12, 0, ''Hello World'')]"
proof -
  have 1: "sorted (map (\<lambda>sp. fst (origin sp)) (sort_key (\<lambda>sp. fst (origin sp)) sps))"
    by (rule sorted_sort_key)
  have 2: "mset (sort_key (\<lambda>sp. fst (origin sp)) sps) = mset sps"
    by simp
  have 3: "\<forall>k. filter (\<lambda>sp. fst (origin sp) = k) (sort_key (\<lambda>sp. fst (origin sp)) sps)
          = filter (\<lambda>sp. fst (origin sp) = k) sps"
    by (simp add: sort_key_stable)
  have 4: "concat (line_parts sps) = concat (map span_text (sort_key (\<lambda>sp. fst (origin sp)) sps))"
    by (simp add: line_parts_def concat_nonempty_parts)
  have 5: "collect_line \<lparr>line_bbox = (x0, y0, x1, y1), line_spans = sps\<rparr>
       = (if concat (map span_text (sort_key (\<lambda>sp. fst (origin sp)) sps)) = [] then []
          else [(y0, y1, x0, concat (map span_text (sort_key (\<lambda>sp. fst (origin sp)) sps)))])"
    unfolding collect_line_def Let_def 4
    by (simp add: line_parts_def nonempty_parts_Nil concat_nonempty_parts
        del: concat_eq_Nil_conv)
  have 6: "collect_line \<lparr>line_bbox = (0, 0, 100, 12),
         line_spans = [\<lparr>span_text = ''World'', origin = (50, 10)\<rparr>,
                       \<lparr>span_text = ''Hello '', origin = (0, 10)\<rparr>]\<rparr>
       = [(0, 12, 0, ''Hello World'')]"
    by (simp add: collect_line_def line_parts_def)
  from 1 2 3 4 5 6 show ?thesis by (simp only: simp_thms)
qed

end
